theory Spec2Isabelle
  imports Complex_Main "HOL-Library.AList"
begin

section \<open>Detections (backend/detector.py)\<close>

text \<open>
  Coordinates, confidences and timestamps are Python numbers (the demo passes ints, the
  detector passes floats). They are modelled as exact reals: rounding, overflow to
  infinity and NaN are outside this development. Timestamps are seconds.
\<close>

type_synonym point = "real \<times> real"
type_synonym box = "real \<times> real \<times> real \<times> real"

record Detection =
  class_id :: int
  class_name :: string
  confidence :: real
  bbox :: box

fun center_of :: "box \<Rightarrow> point" where
  "center_of (x1, y1, x2, y2) = ((x1 + x2) / 2, (y1 + y2) / 2)"

definition center :: "Detection \<Rightarrow> point" where
  "center d = center_of (bbox d)"

fun box_width :: "box \<Rightarrow> real" where
  "box_width (x1, y1, x2, y2) = x2 - x1"

fun box_height :: "box \<Rightarrow> real" where
  "box_height (x1, y1, x2, y2) = y2 - y1"

definition width :: "Detection \<Rightarrow> real" where
  "width d = box_width (bbox d)"

definition height :: "Detection \<Rightarrow> real" where
  "height d = box_height (bbox d)"

definition aspect_ratio :: "Detection \<Rightarrow> real" where
  "aspect_ratio d = (if width d > 0 then height d / width d else 0)"

section \<open>Deposit tracking (backend/poop_tracker.py)\<close>

subsection \<open>Intersection over union\<close>

fun calculate_iou :: "box \<Rightarrow> box \<Rightarrow> real" where
  "calculate_iou (x1_1, y1_1, x2_1, y2_1) (x1_2, y1_2, x2_2, y2_2) =
     (let x1_i = max x1_1 x1_2;
          y1_i = max y1_1 y1_2;
          x2_i = min x2_1 x2_2;
          y2_i = min y2_1 y2_2
      in if x2_i < x1_i \<or> y2_i < y1_i then 0
         else
           let intersection = (x2_i - x1_i) * (y2_i - y1_i);
               area1 = (x2_1 - x1_1) * (y2_1 - y1_1);
               area2 = (x2_2 - x1_2) * (y2_2 - y1_2);
               union = area1 + area2 - intersection
           in if union > 0 then intersection / union else 0)"

text \<open>Geometry used to state the properties of \<open>calculate_iou\<close>.\<close>

fun box_area :: "box \<Rightarrow> real" where
  "box_area (x1, y1, x2, y2) = (x2 - x1) * (y2 - y1)"

fun well_formed :: "box \<Rightarrow> bool" where
  "well_formed (x1, y1, x2, y2) \<longleftrightarrow> x1 \<le> x2 \<and> y1 \<le> y2"

fun box_points :: "box \<Rightarrow> point set" where
  "box_points (x1, y1, x2, y2) = {(x, y). x1 \<le> x \<and> x \<le> x2 \<and> y1 \<le> y \<and> y \<le> y2}"

fun overlap_area :: "box \<Rightarrow> box \<Rightarrow> real" where
  "overlap_area (x1_1, y1_1, x2_1, y2_1) (x1_2, y1_2, x2_2, y2_2) =
     (if min x2_1 x2_2 < max x1_1 x1_2 \<or> min y2_1 y2_2 < max y1_1 y1_2 then 0
      else (min x2_1 x2_2 - max x1_1 x1_2) * (min y2_1 y2_2 - max y1_1 y1_2))"

definition union_area :: "box \<Rightarrow> box \<Rightarrow> real" where
  "union_area a b = box_area a + box_area b - overlap_area a b"

subsection \<open>Deposits and the tracker object\<close>

text \<open>
  \<open>status\<close> is a Python string documented as \<open>pending | active | cleaned\<close>; no other
  value is ever assigned. Ids are \<open>str(uuid.uuid4())\<close>: the draws are modelled by a counter
  kept beside the tracker's fields (\<open>uuid_counter\<close>), so two draws never collide.
  \<open>datetime.now()\<close> is read once per call and passed in as \<open>now\<close>.
\<close>

datatype poop_status = Pending | Active | Cleaned

record PoopInstance =
  poop_id :: nat
  location :: point
  poop_bbox :: box
  first_seen :: real
  last_seen :: real
  status :: poop_status
  deposited_by :: "string option"
  missing_frames :: int
  cleanup_candidate_frames :: int

text \<open>
  The calls made to \<open>event_callback\<close>, in order: \<open>("poop_confirmed", {id, location})\<close>,
  \<open>("poop_cleaned", {id, location})\<close> and \<open>("poop_detected", {id, location, bbox})\<close>.
\<close>

datatype event =
    PoopConfirmed nat point
  | PoopCleaned nat point
  | PoopDetected nat point box

text \<open>\<open>event_callback\<close> is \<open>Optional[Callable]\<close>; the field records whether one is registered.\<close>

record PoopTracker =
  iou_threshold :: real
  stale_threshold :: int
  cleanup_confirm_frames :: int
  event_callback :: bool
  active_poops :: "PoopInstance list"
  cleaned_count :: int
  total_deposits :: int
  uuid_counter :: nat

definition init_tracker :: "real \<Rightarrow> int \<Rightarrow> int \<Rightarrow> bool \<Rightarrow> PoopTracker" where
  "init_tracker iou stale confirm cb =
     \<lparr>iou_threshold = iou, stale_threshold = stale, cleanup_confirm_frames = confirm,
      event_callback = cb, active_poops = [], cleaned_count = 0, total_deposits = 0,
      uuid_counter = 0\<rparr>"

subsection \<open>Proximity of a person\<close>

fun is_human_nearby :: "PoopInstance \<Rightarrow> Detection list \<Rightarrow> real \<Rightarrow> bool" where
  "is_human_nearby poop [] threshold = False"
| "is_human_nearby poop (person # rest) threshold =
     (case location poop of (poop_x, poop_y) \<Rightarrow>
      case center person of (person_x, person_y) \<Rightarrow>
        let distance = sqrt ((poop_x - person_x)\<^sup>2 + (poop_y - person_y)\<^sup>2)
        in if distance < threshold then True else is_human_nearby poop rest threshold)"

subsection \<open>The update cycle\<close>

text \<open>Lines 94--104: the scan of the deposit detections for one deposit.\<close>

fun best_detection_loop ::
  "real \<Rightarrow> box \<Rightarrow> nat set \<Rightarrow> (nat \<times> Detection) list \<Rightarrow> real \<Rightarrow> (nat \<times> Detection) option
   \<Rightarrow> (nat \<times> Detection) option" where
  "best_detection_loop thr pb matched_indices [] best_iou best_detection = best_detection"
| "best_detection_loop thr pb matched_indices ((i, detection) # rest) best_iou best_detection =
     (if i \<in> matched_indices
      then best_detection_loop thr pb matched_indices rest best_iou best_detection
      else
        let iou = calculate_iou pb (bbox detection)
        in if iou > best_iou \<and> iou > thr
           then best_detection_loop thr pb matched_indices rest iou (Some (i, detection))
           else best_detection_loop thr pb matched_indices rest best_iou best_detection)"

definition find_best_detection ::
  "PoopTracker \<Rightarrow> PoopInstance \<Rightarrow> Detection list \<Rightarrow> nat set \<Rightarrow> (nat \<times> Detection) option" where
  "find_best_detection t poop poop_detections matched_indices =
     best_detection_loop (iou_threshold t) (poop_bbox poop) matched_indices
       (enumerate 0 poop_detections) 0 None"

text \<open>Lines 107--125: the branch taken when a detection was found for the deposit.\<close>

definition on_match :: "PoopTracker \<Rightarrow> real \<Rightarrow> Detection \<Rightarrow> PoopInstance \<Rightarrow> PoopInstance \<times> event list" where
  "on_match t now detection poop =
     (let poop1 = poop\<lparr>poop_bbox := bbox detection, location := center detection,
                       last_seen := now, missing_frames := 0, cleanup_candidate_frames := 0\<rparr>
      in if status poop1 = Pending
         then (poop1\<lparr>status := Active\<rparr>,
               if event_callback t then [PoopConfirmed (poop_id poop1) (location poop1)] else [])
         else (poop1, []))"

text \<open>
  Lines 127--144: the branch taken when none was found. The second component is the
  amount added to \<open>cleaned_count\<close>.
\<close>

definition on_miss ::
  "PoopTracker \<Rightarrow> Detection list \<Rightarrow> PoopInstance \<Rightarrow> PoopInstance \<times> int \<times> event list" where
  "on_miss t person_detections poop =
     (let poop1 = poop\<lparr>missing_frames := missing_frames poop + 1\<rparr>
      in if is_human_nearby poop1 person_detections 100
         then
           let poop2 = poop1\<lparr>cleanup_candidate_frames := cleanup_candidate_frames poop1 + 1\<rparr>
           in if cleanup_candidate_frames poop2 \<ge> cleanup_confirm_frames t
              then (poop2\<lparr>status := Cleaned\<rparr>, 1,
                    if event_callback t then [PoopCleaned (poop_id poop2) (location poop2)] else [])
              else (poop2, 0, [])
         else (poop1\<lparr>cleanup_candidate_frames := 0\<rparr>, 0, []))"

text \<open>
  Lines 93--144: the loop over \<open>self.active_poops\<close>. It returns the deposits as mutated,
  the final \<open>matched_indices\<close>, the total added to \<open>cleaned_count\<close> and the callback calls.
\<close>

fun match_loop ::
  "PoopTracker \<Rightarrow> real \<Rightarrow> Detection list \<Rightarrow> Detection list \<Rightarrow> PoopInstance list \<Rightarrow> nat set
   \<Rightarrow> PoopInstance list \<times> nat set \<times> int \<times> event list" where
  "match_loop t now poop_detections person_detections [] matched_indices =
     ([], matched_indices, 0, [])"
| "match_loop t now poop_detections person_detections (poop # rest) matched_indices =
     (case find_best_detection t poop poop_detections matched_indices of
        Some (idx, detection) \<Rightarrow>
          (case on_match t now detection poop of (poop', evs) \<Rightarrow>
           case match_loop t now poop_detections person_detections rest (insert idx matched_indices) of
             (rest', matched', cleaned, evs') \<Rightarrow> (poop' # rest', matched', cleaned, evs @ evs'))
      | None \<Rightarrow>
          (case on_miss t person_detections poop of (poop', k, evs) \<Rightarrow>
           case match_loop t now poop_detections person_detections rest matched_indices of
             (rest', matched', cleaned, evs') \<Rightarrow> (poop' # rest', matched', k + cleaned, evs @ evs')))"

text \<open>
  The two constructor calls \<open>PoopInstance(location=..., bbox=..., status="active")\<close> and
  \<open>PoopInstance(location=..., status="pending")\<close>, with the defaults of the dataclass.
\<close>

definition detected_poop :: "nat \<Rightarrow> real \<Rightarrow> Detection \<Rightarrow> PoopInstance" where
  "detected_poop uuid now detection =
     \<lparr>poop_id = uuid, location = center detection, poop_bbox = bbox detection,
      first_seen = now, last_seen = now, status = Active, deposited_by = None,
      missing_frames = 0, cleanup_candidate_frames = 0\<rparr>"

definition pending_poop :: "nat \<Rightarrow> real \<Rightarrow> point \<Rightarrow> PoopInstance" where
  "pending_poop uuid now event_location =
     \<lparr>poop_id = uuid, location = event_location, poop_bbox = (0, 0, 0, 0),
      first_seen = now, last_seen = now, status = Pending, deposited_by = None,
      missing_frames = 0, cleanup_candidate_frames = 0\<rparr>"

text \<open>Lines 147--162: new deposits for the detections no deposit claimed.\<close>

fun create_loop ::
  "PoopTracker \<Rightarrow> real \<Rightarrow> nat set \<Rightarrow> (nat \<times> Detection) list \<Rightarrow> nat \<Rightarrow> PoopInstance list \<times> event list" where
  "create_loop t now matched_indices [] uuid = ([], [])"
| "create_loop t now matched_indices ((i, detection) # rest) uuid =
     (if i \<notin> matched_indices
      then
        let new_poop = detected_poop uuid now detection
        in case create_loop t now matched_indices rest (Suc uuid) of
             (news, evs) \<Rightarrow>
               (new_poop # news,
                (if event_callback t
                 then [PoopDetected (poop_id new_poop) (location new_poop) (poop_bbox new_poop)]
                 else []) @ evs)
      else create_loop t now matched_indices rest uuid)"

text \<open>Lines 165--171: a pending deposit for every pooping event.\<close>

fun pending_loop :: "real \<Rightarrow> point list \<Rightarrow> nat \<Rightarrow> PoopInstance list" where
  "pending_loop now [] uuid = []"
| "pending_loop now (event_location # rest) uuid =
     pending_poop uuid now event_location # pending_loop now rest (Suc uuid)"

definition poop_detections :: "Detection list \<Rightarrow> Detection list" where
  "poop_detections detections = filter (\<lambda>d. class_name d = ''poop'') detections"

definition person_detections :: "Detection list \<Rightarrow> Detection list" where
  "person_detections detections = filter (\<lambda>d. class_name d = ''person'') detections"

definition update ::
  "PoopTracker \<Rightarrow> real \<Rightarrow> Detection list \<Rightarrow> point list \<Rightarrow> PoopTracker \<times> event list" where
  "update t now detections pooping_events =
     (case match_loop t now (poop_detections detections) (person_detections detections)
             (active_poops t) {} of
        (poops, matched_indices, cleaned, evs1) \<Rightarrow>
      case create_loop t now matched_indices (enumerate 0 (poop_detections detections))
             (uuid_counter t) of
        (news, evs2) \<Rightarrow>
      let uuid2 = uuid_counter t + length news;
          pendings = pending_loop now pooping_events uuid2;
          all_poops = poops @ news @ pendings
      in (t\<lparr>active_poops :=
               filter (\<lambda>p. status p \<noteq> Cleaned \<and> missing_frames p < stale_threshold t) all_poops,
             cleaned_count := cleaned_count t + cleaned,
             total_deposits := total_deposits t + int (length news),
             uuid_counter := uuid2 + length pendings\<rparr>,
          evs1 @ evs2))"

text \<open>\<open>get_state\<close>: the dictionary handed to the alert side, with its four keys.\<close>

record TrackerState =
  state_active_poops :: "PoopInstance list"
  state_pending_poops :: "PoopInstance list"
  state_cleaned_count :: int
  state_total_deposits :: int

definition get_state :: "PoopTracker \<Rightarrow> TrackerState" where
  "get_state t =
     \<lparr>state_active_poops = filter (\<lambda>p. status p = Active) (active_poops t),
      state_pending_poops = filter (\<lambda>p. status p = Pending) (active_poops t),
      state_cleaned_count = cleaned_count t,
      state_total_deposits = total_deposits t\<rparr>"

text \<open>A run of the tracker: one \<open>update\<close> per frame, as the main loop calls it.\<close>

type_synonym frame_input = "real \<times> Detection list \<times> point list"

fun run :: "PoopTracker \<Rightarrow> frame_input list \<Rightarrow> PoopTracker" where
  "run t [] = t"
| "run t ((now, detections, pooping_events) # rest) =
     run (fst (update t now detections pooping_events)) rest"

text \<open>The callback calls of a whole run, in order.\<close>

fun run_events :: "PoopTracker \<Rightarrow> frame_input list \<Rightarrow> event list" where
  "run_events t [] = []"
| "run_events t ((now, detections, pooping_events) # rest) =
     snd (update t now detections pooping_events)
     @ run_events (fst (update t now detections pooping_events)) rest"

subsection \<open>Vocabulary for the properties of a cycle\<close>

text \<open>
  \<open>claimed_before t pds ps m k\<close> is the value of \<open>matched_indices\<close> when the loop of
  \<open>match_loop\<close>, started with \<open>m\<close>, reaches the deposit at position \<open>k\<close> of \<open>ps\<close>, and
  \<open>claim_of\<close> is the detection that deposit then obtains, if any.
\<close>

fun claimed_before :: "PoopTracker \<Rightarrow> Detection list \<Rightarrow> PoopInstance list \<Rightarrow> nat set \<Rightarrow> nat \<Rightarrow> nat set" where
  "claimed_before t pds [] m k = m"
| "claimed_before t pds (p # ps) m 0 = m"
| "claimed_before t pds (p # ps) m (Suc k) =
     claimed_before t pds ps
       (case find_best_detection t p pds m of Some (idx, d) \<Rightarrow> insert idx m | None \<Rightarrow> m) k"

definition claim_of :: "PoopTracker \<Rightarrow> Detection list \<Rightarrow> nat \<Rightarrow> (nat \<times> Detection) option" where
  "claim_of t detections k =
     find_best_detection t (active_poops t ! k) (poop_detections detections)
       (claimed_before t (poop_detections detections) (active_poops t) {} k)"

text \<open>The deposits as the matching loop leaves them, before creation and pruning.\<close>

definition matched_poops :: "PoopTracker \<Rightarrow> real \<Rightarrow> Detection list \<Rightarrow> PoopInstance list" where
  "matched_poops t now detections =
     fst (match_loop t now (poop_detections detections) (person_detections detections)
            (active_poops t) {})"

text \<open>The detections no deposit claimed, in order.\<close>

definition unclaimed_detections :: "PoopTracker \<Rightarrow> real \<Rightarrow> Detection list \<Rightarrow> Detection list" where
  "unclaimed_detections t now detections =
     map snd (filter (\<lambda>(i, d). i \<notin> fst (snd (match_loop t now (poop_detections detections)
                 (person_detections detections) (active_poops t) {})))
       (enumerate 0 (poop_detections detections)))"

text \<open>The deposits the cycle creates, before pruning.\<close>

definition created_poops :: "PoopTracker \<Rightarrow> real \<Rightarrow> Detection list \<Rightarrow> PoopInstance list" where
  "created_poops t now detections =
     fst (create_loop t now
            (fst (snd (match_loop t now (poop_detections detections)
               (person_detections detections) (active_poops t) {})))
            (enumerate 0 (poop_detections detections)) (uuid_counter t))"

definition created_pendings ::
  "PoopTracker \<Rightarrow> real \<Rightarrow> Detection list \<Rightarrow> point list \<Rightarrow> PoopInstance list" where
  "created_pendings t now detections pooping_events =
     pending_loop now pooping_events (uuid_counter t + length (created_poops t now detections))"

text \<open>The test of the final list comprehension, negated: the deposit is dropped.\<close>

definition pruned :: "PoopTracker \<Rightarrow> PoopInstance \<Rightarrow> bool" where
  "pruned t p \<longleftrightarrow> \<not> (status p \<noteq> Cleaned \<and> missing_frames p < stale_threshold t)"

fun cleaned_ids :: "event list \<Rightarrow> nat list" where
  "cleaned_ids [] = []"
| "cleaned_ids (PoopCleaned i l # evs) = i # cleaned_ids evs"
| "cleaned_ids (_ # evs) = cleaned_ids evs"

fun is_cleaned_event :: "event \<Rightarrow> bool" where
  "is_cleaned_event (PoopCleaned i l) = True"
| "is_cleaned_event _ = False"

fun is_confirmed_event :: "event \<Rightarrow> bool" where
  "is_confirmed_event (PoopConfirmed i l) = True"
| "is_confirmed_event _ = False"

fun is_detected_event :: "event \<Rightarrow> bool" where
  "is_detected_event (PoopDetected i l b) = True"
| "is_detected_event _ = False"

text \<open>The deposit of the loop that branch \<open>on_miss\<close> marks as cleaned.\<close>

definition cleans :: "PoopTracker \<Rightarrow> Detection list \<Rightarrow> PoopInstance \<Rightarrow> bool" where
  "cleans t persons p \<longleftrightarrow>
     is_human_nearby p persons 100 \<and> cleanup_candidate_frames p + 1 \<ge> cleanup_confirm_frames t"

text \<open>
  The cycles of a run, each with the tracker as it was when the cycle began, and the
  cycles in which the deposit with a given id found no detection and had a person nearby.
\<close>

fun cycles :: "PoopTracker \<Rightarrow> frame_input list \<Rightarrow> (PoopTracker \<times> frame_input) list" where
  "cycles t [] = []"
| "cycles t ((now, detections, pooping_events) # rest) =
     (t, (now, detections, pooping_events))
     # cycles (fst (update t now detections pooping_events)) rest"

fun streak_cycle :: "nat \<Rightarrow> PoopTracker \<times> frame_input \<Rightarrow> bool" where
  "streak_cycle i (t, (now, detections, pooping_events)) \<longleftrightarrow>
     (\<exists>k < length (active_poops t).
        poop_id (active_poops t ! k) = i \<and> claim_of t detections k = None
        \<and> is_human_nearby (active_poops t ! k) (person_detections detections) 100)"

section \<open>Behavioural event detection (backend/event_detector.py)\<close>

text \<open>
  A sample of a track is the dictionary with the keys \<open>center\<close>, \<open>bbox\<close>,
  \<open>aspect_ratio\<close> and \<open>timestamp\<close>. \<open>float('inf')\<close> is the one non-real value the
  module computes with; \<open>xreal\<close> adds it to the reals, with Python's comparison.
\<close>

record Position =
  position_center :: point
  position_bbox :: box
  position_aspect_ratio :: real
  position_timestamp :: real

datatype xreal = Fin real | Inf

fun xless :: "xreal \<Rightarrow> xreal \<Rightarrow> bool" where
  "xless (Fin a) (Fin b) \<longleftrightarrow> a < b"
| "xless (Fin a) Inf \<longleftrightarrow> True"
| "xless Inf b \<longleftrightarrow> False"

record DogTrack =
  positions :: "Position list"
  last_update :: real

text \<open>\<open>deque(maxlen=n).append\<close>: the oldest element leaves when the length would pass \<open>n\<close>.\<close>

definition deque_append :: "nat \<Rightarrow> 'a list \<Rightarrow> 'a \<Rightarrow> 'a list" where
  "deque_append maxlen xs x = (let ys = xs @ [x] in if length ys > maxlen then tl ys else ys)"

definition add_position :: "Detection \<Rightarrow> real \<Rightarrow> DogTrack \<Rightarrow> DogTrack" where
  "add_position detection now track =
     track\<lparr>positions := deque_append 90 (positions track)
                 \<lparr>position_center = center detection, position_bbox = bbox detection,
                  position_aspect_ratio = aspect_ratio detection, position_timestamp = now\<rparr>,
           last_update := now\<rparr>"

definition new_track :: "Detection \<Rightarrow> real \<Rightarrow> DogTrack" where
  "new_track detection now = add_position detection now \<lparr>positions = [], last_update = now\<rparr>"

definition is_stale :: "DogTrack \<Rightarrow> real \<Rightarrow> real \<Rightarrow> bool" where
  "is_stale track now max_age_seconds \<longleftrightarrow> now - last_update track > max_age_seconds"

fun distance :: "point \<Rightarrow> point \<Rightarrow> real" where
  "distance (x1, y1) (x2, y2) = sqrt ((x2 - x1)\<^sup>2 + (y2 - y1)\<^sup>2)"

text \<open>The loop of \<open>get_average_movement\<close>: the sum of the steps between consecutive samples.\<close>

fun total_movement :: "Position list \<Rightarrow> real" where
  "total_movement (a # b # rest) =
     distance (position_center a) (position_center b) + total_movement (b # rest)"
| "total_movement _ = 0"

definition get_average_movement :: "DogTrack \<Rightarrow> xreal" where
  "get_average_movement track =
     (if length (positions track) < 2 then Inf
      else Fin (total_movement (positions track) / (real (length (positions track)) - 1)))"

definition get_average_aspect_ratio :: "DogTrack \<Rightarrow> real" where
  "get_average_aspect_ratio track =
     (if positions track = [] then 1
      else sum_list (map position_aspect_ratio (positions track))
           / real (length (positions track)))"

definition get_track_duration :: "DogTrack \<Rightarrow> real" where
  "get_track_duration track =
     (if length (positions track) < 2 then 0
      else position_timestamp (last (positions track))
           - position_timestamp (hd (positions track)))"

definition get_ground_location :: "DogTrack \<Rightarrow> point" where
  "get_ground_location track =
     (if positions track = [] then (0, 0)
      else case position_bbox (last (positions track)) of
             (x1, y1, x2, y2) \<Rightarrow> ((x1 + x2) / 2, y2))"

text \<open>The dictionary \<open>dog_tracks\<close> keeps insertion order: an association list.\<close>

record EventDetector =
  stationary_threshold :: real
  aspect_ratio_threshold :: real
  dog_tracks :: "(nat \<times> DogTrack) list"
  next_track_id :: nat
  movement_threshold :: real

definition init_event_detector :: "real \<Rightarrow> real \<Rightarrow> EventDetector" where
  "init_event_detector stationary aspect =
     \<lparr>stationary_threshold = stationary, aspect_ratio_threshold = aspect, dog_tracks = [],
      next_track_id = 0, movement_threshold = 5\<rparr>"

definition is_pooping :: "EventDetector \<Rightarrow> DogTrack \<Rightarrow> bool" where
  "is_pooping ed track =
     (if get_track_duration track < stationary_threshold ed then False
      else if xless (Fin (movement_threshold ed)) (get_average_movement track) then False
      else if get_average_aspect_ratio track > aspect_ratio_threshold ed then False
      else True)"

text \<open>Lines 139--149: the nearest unclaimed detection within 100 pixels.\<close>

fun nearest_loop ::
  "point \<Rightarrow> nat set \<Rightarrow> (nat \<times> Detection) list \<Rightarrow> xreal \<Rightarrow> nat option \<Rightarrow> nat option" where
  "nearest_loop last_center matched_detections [] best_distance best_detection_idx =
     best_detection_idx"
| "nearest_loop last_center matched_detections ((i, detection) # rest) best_distance
     best_detection_idx =
     (if i \<in> matched_detections
      then nearest_loop last_center matched_detections rest best_distance best_detection_idx
      else
        let d = distance last_center (center detection)
        in if xless (Fin d) best_distance \<and> d < 100
           then nearest_loop last_center matched_detections rest (Fin d) (Some i)
           else nearest_loop last_center matched_detections rest best_distance best_detection_idx)"

text \<open>Lines 134--154: the loop over the existing tracks (\<open>matched_tracks\<close> is never read).\<close>

fun track_loop ::
  "real \<Rightarrow> Detection list \<Rightarrow> (nat \<times> DogTrack) list \<Rightarrow> nat set
   \<Rightarrow> (nat \<times> DogTrack) list \<times> nat set" where
  "track_loop now dog_detections [] matched_detections = ([], matched_detections)"
| "track_loop now dog_detections ((track_id, track) # rest) matched_detections =
     (if positions track = []
      then case track_loop now dog_detections rest matched_detections of
             (rest', matched') \<Rightarrow> ((track_id, track) # rest', matched')
      else
        case nearest_loop (position_center (last (positions track))) matched_detections
               (enumerate 0 dog_detections) Inf None of
          Some idx \<Rightarrow>
            (case track_loop now dog_detections rest (insert idx matched_detections) of
               (rest', matched') \<Rightarrow>
                 ((track_id, add_position (dog_detections ! idx) now track) # rest', matched'))
        | None \<Rightarrow>
            (case track_loop now dog_detections rest matched_detections of
               (rest', matched') \<Rightarrow> ((track_id, track) # rest', matched')))"

text \<open>Lines 157--160: a new track for every detection left over.\<close>

fun new_track_loop ::
  "real \<Rightarrow> nat set \<Rightarrow> (nat \<times> Detection) list \<Rightarrow> (nat \<times> DogTrack) list \<Rightarrow> nat
   \<Rightarrow> (nat \<times> DogTrack) list \<times> nat" where
  "new_track_loop now matched_detections [] tracks next_id = (tracks, next_id)"
| "new_track_loop now matched_detections ((i, detection) # rest) tracks next_id =
     (if i \<notin> matched_detections
      then new_track_loop now matched_detections rest
             (AList.update next_id (new_track detection now) tracks) (Suc next_id)
      else new_track_loop now matched_detections rest tracks next_id)"

definition update_tracks :: "EventDetector \<Rightarrow> real \<Rightarrow> Detection list \<Rightarrow> EventDetector" where
  "update_tracks ed now dog_detections =
     (case track_loop now dog_detections (dog_tracks ed) {} of
        (tracks, matched_detections) \<Rightarrow>
      case new_track_loop now matched_detections (enumerate 0 dog_detections) tracks
             (next_track_id ed) of
        (tracks', next_id) \<Rightarrow> ed\<lparr>dog_tracks := tracks', next_track_id := next_id\<rparr>)"

text \<open>Lines 109--113: the loop that collects the ground locations.\<close>

fun pooping_loop :: "EventDetector \<Rightarrow> (nat \<times> DogTrack) list \<Rightarrow> point list" where
  "pooping_loop ed [] = []"
| "pooping_loop ed ((track_id, track) # rest) =
     (if is_pooping ed track then get_ground_location track # pooping_loop ed rest
      else pooping_loop ed rest)"

definition process :: "EventDetector \<Rightarrow> real \<Rightarrow> Detection list \<Rightarrow> point list \<times> EventDetector" where
  "process ed now detections =
     (let dog_detections = filter (\<lambda>d. class_name d = ''dog'') detections;
          ed1 = update_tracks ed now dog_detections;
          pooping_events = pooping_loop ed1 (dog_tracks ed1)
      in (pooping_events,
          ed1\<lparr>dog_tracks := filter (\<lambda>(tid, track). \<not> is_stale track now 1) (dog_tracks ed1)\<rparr>))"

section \<open>Alerts (backend/state_manager.py)\<close>

text \<open>
  \<open>last_state\<close> is the empty dictionary until the first call, then the three counters.
  The log lines of the three \<open>_alert_*\<close> methods are the output. \<open>new_ids\<close> is a Python
  set, iterated in an order the language leaves open: the model enumerates it in the order
  of first occurrence in the list.
\<close>

record Summary =
  summary_active_count :: nat
  summary_cleaned_count :: int
  summary_total_deposits :: int

record StateManager =
  alert_new_poop :: bool
  alert_cleanup :: bool
  aged_minutes :: real
  known_poop_ids :: "nat set"
  last_state :: "Summary option"

datatype alert =
    NewPoopAlert nat
  | CleanupAlert int
  | AgedPoopAlert nat real point

definition init_state_manager :: "bool \<Rightarrow> bool \<Rightarrow> real \<Rightarrow> StateManager" where
  "init_state_manager new_poop cleanup aged =
     \<lparr>alert_new_poop = new_poop, alert_cleanup = cleanup, aged_minutes = aged,
      known_poop_ids = {}, last_state = None\<rparr>"

text \<open>Lines 42--44: one alert per new id, which is then remembered.\<close>

fun new_ids_loop :: "nat list \<Rightarrow> nat set \<Rightarrow> alert list \<times> nat set" where
  "new_ids_loop [] known = ([], known)"
| "new_ids_loop (new_id # rest) known =
     (case new_ids_loop rest (insert new_id known) of
        (alerts, known') \<Rightarrow> (NewPoopAlert new_id # alerts, known'))"

text \<open>Lines 54--57: the aged deposits.\<close>

fun aged_loop :: "real \<Rightarrow> real \<Rightarrow> PoopInstance list \<Rightarrow> alert list" where
  "aged_loop now aged [] = []"
| "aged_loop now aged (poop # rest) =
     (let age_minutes = (now - first_seen poop) / 60
      in if age_minutes \<ge> aged
         then AgedPoopAlert (poop_id poop) age_minutes (location poop) # aged_loop now aged rest
         else aged_loop now aged rest)"

definition state_manager_update ::
  "StateManager \<Rightarrow> real \<Rightarrow> TrackerState \<Rightarrow> StateManager \<times> alert list" where
  "state_manager_update sm now tracker_state =
     (let actives = state_active_poops tracker_state;
          cleaned = state_cleaned_count tracker_state;
          total = state_total_deposits tracker_state;
          (alerts1, known) =
            (if alert_new_poop sm
             then
               let current_ids = map poop_id actives;
                   new_ids = remdups (filter (\<lambda>i. i \<notin> known_poop_ids sm) current_ids)
               in new_ids_loop new_ids (known_poop_ids sm)
             else ([], known_poop_ids sm));
          alerts2 =
            (if alert_cleanup sm
             then
               let prev_cleaned =
                     (case last_state sm of None \<Rightarrow> 0 | Some l \<Rightarrow> summary_cleaned_count l)
               in if cleaned > prev_cleaned
                  then [CleanupAlert (cleaned - prev_cleaned)]
                  else []
             else []);
          alerts3 = aged_loop now (aged_minutes sm) actives
      in (sm\<lparr>known_poop_ids := known,
               last_state := Some \<lparr>summary_active_count = length actives,
                                     summary_cleaned_count = cleaned,
                                     summary_total_deposits = total\<rparr>\<rparr>,
          alerts1 @ alerts2 @ alerts3))"

section \<open>Invariants and readings of the outputs\<close>

text \<open>
  Three facts that hold of every tracker a run reaches from the empty one: ids are
  distinct, below the counter, and no kept deposit is cleaned; every pending deposit
  still has the empty box it was created with; every streak counter is below the confirm
  count.
\<close>

definition tracker_ok :: "PoopTracker \<Rightarrow> bool" where
  "tracker_ok t \<longleftrightarrow>
     distinct (map poop_id (active_poops t))
     \<and> (\<forall>p \<in> set (active_poops t). poop_id p < uuid_counter t \<and> status p \<noteq> Cleaned)"

definition pending_unseen :: "PoopTracker \<Rightarrow> bool" where
  "pending_unseen t \<longleftrightarrow>
     (\<forall>p \<in> set (active_poops t). status p = Pending \<longrightarrow> poop_bbox p = (0, 0, 0, 0))"

definition streak_below :: "PoopTracker \<Rightarrow> bool" where
  "streak_below t \<longleftrightarrow>
     (\<forall>p \<in> set (active_poops t). cleanup_candidate_frames p < cleanup_confirm_frames t)"

text \<open>The order of the three statuses in the life of a deposit.\<close>

fun status_rank :: "poop_status \<Rightarrow> nat" where
  "status_rank Pending = 0"
| "status_rank Active = 1"
| "status_rank Cleaned = 2"

text \<open>
  The ids of the new-deposit alerts and the counts of the cleanup alerts in a list of
  alerts, and the \<open>cleaned_count\<close> the state manager remembers from its last call.
\<close>

fun new_poop_alert_ids :: "alert list \<Rightarrow> nat list" where
  "new_poop_alert_ids [] = []"
| "new_poop_alert_ids (NewPoopAlert i # as) = i # new_poop_alert_ids as"
| "new_poop_alert_ids (_ # as) = new_poop_alert_ids as"

fun cleanup_alert_counts :: "alert list \<Rightarrow> int list" where
  "cleanup_alert_counts [] = []"
| "cleanup_alert_counts (CleanupAlert n # as) = n # cleanup_alert_counts as"
| "cleanup_alert_counts (_ # as) = cleanup_alert_counts as"

definition prev_cleaned :: "StateManager \<Rightarrow> int" where
  "prev_cleaned sm = (case last_state sm of None \<Rightarrow> 0 | Some l \<Rightarrow> summary_cleaned_count l)"

section \<open>Detections and trackers used as examples\<close>

text \<open>The three constructors of \<open>demo.py\<close> (\<open>size // 2\<close> is integer division).\<close>

definition create_dog_detection :: "real \<Rightarrow> real \<Rightarrow> real \<Rightarrow> real \<Rightarrow> Detection" where
  "create_dog_detection x y w h =
     \<lparr>class_id = 16, class_name = ''dog'', confidence = 95 / 100,
      bbox = (x, y, x + w, y + h)\<rparr>"

definition create_poop_detection :: "real \<Rightarrow> real \<Rightarrow> int \<Rightarrow> Detection" where
  "create_poop_detection x y sz =
     \<lparr>class_id = 99, class_name = ''poop'', confidence = 85 / 100,
      bbox = (x - real_of_int (sz div 2), y - real_of_int (sz div 2),
              x + real_of_int (sz div 2), y + real_of_int (sz div 2))\<rparr>"

definition create_person_detection :: "real \<Rightarrow> real \<Rightarrow> real \<Rightarrow> real \<Rightarrow> Detection" where
  "create_person_detection x y w h =
     \<lparr>class_id = 0, class_name = ''person'', confidence = 92 / 100,
      bbox = (x, y, x + w, y + h)\<rparr>"

text \<open>
  Trackers after one frame with a deposit detection (staleness threshold 30 and 1), after
  one frame with a pooping event, and after a deposit detection followed by a frame in
  which only a person, centered on the deposit, is seen.
\<close>

definition one_poop :: PoopTracker where
  "one_poop = fst (update (init_tracker (3 / 10) 30 2 True) 0 [create_poop_detection 115 115 30] [])"

definition stale_one :: PoopTracker where
  "stale_one = fst (update (init_tracker (3 / 10) 1 2 True) 0 [create_poop_detection 115 115 30] [])"

definition pending_one :: PoopTracker where
  "pending_one = run (init_tracker (3 / 10) 30 2 True) [(0, [], [(50, 50)])]"

definition near_one :: PoopTracker where
  "near_one = run (init_tracker (3 / 10) 30 2 True)
     [(0, [create_poop_detection 115 115 30], []),
      (1, [create_person_detection 75 15 80 200], [])]"

text \<open>A tracker built by hand, holding a pending deposit whose box is not the empty one.\<close>

definition pending_seen :: PoopTracker where
  "pending_seen =
     (init_tracker (3 / 10) 30 2 True)
       \<lparr>active_poops := [(pending_poop 0 0 (115, 115))\<lparr>poop_bbox := (100, 100, 130, 130)\<rparr>],
        uuid_counter := 1\<rparr>"

text \<open>
  The state of \<open>near_one\<close> one frame later, when the person is still there and a second
  deposit is detected elsewhere; and an event detector that has seen one dog once.
\<close>

definition cleaned_and_new :: TrackerState where
  "cleaned_and_new =
     get_state (fst (update near_one 2
       [create_person_detection 75 15 80 200, create_poop_detection 300 300 30] []))"

definition watching :: EventDetector where
  "watching = snd (process (init_event_detector 2 (8 / 10)) 0 [create_dog_detection 10 20 100 50])"

section \<open>Properties of the deposit tracker\<close>

subsection \<open>Intersection over union\<close>

text \<open>
  C9: \<open>calculate_iou\<close> is symmetric in its two boxes; a box with \<open>x1 \<le> x2\<close>, \<open>y1 \<le> y2\<close>
  and positive area has IoU 1 with itself; and the IoU is 0 when the two boxes share no
  point, when their overlap has area 0, and when the area of their union is 0.
\<close>

theorem iou_props:
  "calculate_iou a b = calculate_iou b a
   \<and> (well_formed a \<and> 0 < box_area a \<longrightarrow> calculate_iou a a = 1)
   \<and> (box_points a \<inter> box_points b = {} \<longrightarrow> calculate_iou a b = 0)
   \<and> (overlap_area a b = 0 \<longrightarrow> calculate_iou a b = 0)
   \<and> (union_area a b = 0 \<longrightarrow> calculate_iou a b = 0)"
proof -
  obtain x1 y1 x2 y2 where a: "a = (x1, y1, x2, y2)" by (cases a) auto
  obtain u1 v1 u2 v2 where b: "b = (u1, v1, u2, v2)" by (cases b) auto
  have sym: "calculate_iou a b = calculate_iou b a"
    unfolding a b by (simp add: Let_def max.commute min.commute add.commute)
  have self: "calculate_iou a a = 1" if "well_formed a" "0 < box_area a"
  proof -
    from that have "x1 \<le> x2" "y1 \<le> y2" "0 < (x2 - x1) * (y2 - y1)" unfolding a by simp_all
    then show ?thesis unfolding a by (auto simp: Let_def)
  qed
  have disj: "calculate_iou a b = 0" if d: "box_points a \<inter> box_points b = {}"
  proof (rule ccontr)
    assume n: "calculate_iou a b \<noteq> 0"
    have "\<not> (min x2 u2 < max x1 u1 \<or> min y2 v2 < max y1 v1)"
    proof
      assume "min x2 u2 < max x1 u1 \<or> min y2 v2 < max y1 v1"
      then have "calculate_iou a b = 0" unfolding a b by (simp add: Let_def)
      with n show False by simp
    qed
    then have le: "max x1 u1 \<le> min x2 u2" "max y1 v1 \<le> min y2 v2" by auto
    then have "(max x1 u1, max y1 v1) \<in> box_points a \<inter> box_points b"
      unfolding a b by auto
    with d show False by blast
  qed
  have ov: "calculate_iou a b = 0" if "overlap_area a b = 0"
    using that unfolding a b by (auto simp: Let_def split: if_splits)
  have un: "calculate_iou a b = 0" if "union_area a b = 0"
    using that unfolding a b union_area_def by (auto simp: Let_def split: if_splits)
  from sym self disj ov un show ?thesis by blast
qed

theorem iou_props_witness:
  "calculate_iou (0, 0, 2, 2) (1, 1, 3, 3) = calculate_iou (1, 1, 3, 3) (0, 0, 2, 2)
   \<and> well_formed (0, 0, 2, 2) \<and> 0 < box_area (0, 0, 2, 2) \<and> calculate_iou (0, 0, 2, 2) (0, 0, 2, 2) = 1
   \<and> box_points (0, 0, 2, 2) \<inter> box_points (5, 5, 6, 6) = {} \<and> calculate_iou (0, 0, 2, 2) (5, 5, 6, 6) = 0
   \<and> overlap_area (0, 0, 2, 2) (2, 0, 4, 2) = 0 \<and> calculate_iou (0, 0, 2, 2) (2, 0, 4, 2) = 0
   \<and> union_area (1, 1, 1, 1) (1, 1, 1, 1) = 0 \<and> calculate_iou (1, 1, 1, 1) (1, 1, 1, 1) = 0"
proof -
  have d: "box_points (0, 0, 2, 2) \<inter> box_points (5, 5, 6, 6) = {}" by auto
  show ?thesis
    using d iou_props [of "(0, 0, 2, 2)" "(1, 1, 3, 3)"] iou_props [of "(0, 0, 2, 2)" "(5, 5, 6, 6)"]
      iou_props [of "(0, 0, 2, 2)" "(2, 0, 4, 2)"] iou_props [of "(1, 1, 1, 1)" "(1, 1, 1, 1)"]
    by (simp add: union_area_def)
qed

subsection \<open>The scan for the best detection\<close>

lemma iou_zero_box: "calculate_iou (0, 0, 0, 0) b = 0"
proof -
  obtain u1 v1 u2 v2 where b: "b = (u1, v1, u2, v2)" by (cases b) auto
  show ?thesis unfolding b by (auto simp: Let_def min_def max_def)
qed

lemma best_detection_loop_Some_stays:
  "best_detection_loop thr pb m xs bi (Some x) \<noteq> None"
  by (induction xs arbitrary: bi x) (auto simp: Let_def)

lemma best_detection_loop_None_iff:
  "best_detection_loop thr pb m xs bi None = None \<longleftrightarrow>
     (\<forall>(i, d) \<in> set xs. i \<in> m \<or> \<not> (calculate_iou pb (bbox d) > bi \<and> calculate_iou pb (bbox d) > thr))"
proof (induction xs arbitrary: bi)
  case Nil
  then show ?case by simp
next
  case (Cons x xs)
  obtain i d where x: "x = (i, d)" by (cases x)
  show ?case
  proof (cases "i \<notin> m \<and> calculate_iou pb (bbox d) > bi \<and> calculate_iou pb (bbox d) > thr")
    case True
    then show ?thesis using best_detection_loop_Some_stays by (auto simp: x Let_def)
  next
    case False
    then have "best_detection_loop thr pb m (x # xs) bi None = best_detection_loop thr pb m xs bi None"
      by (auto simp: x Let_def)
    with False Cons.IH [of bi] show ?thesis by (auto simp: x)
  qed
qed

lemma best_detection_loop_Some:
  "best_detection_loop thr pb m xs bi best = Some r \<Longrightarrow>
     best = Some r \<or>
     (r \<in> set xs \<and> fst r \<notin> m \<and> calculate_iou pb (bbox (snd r)) > thr
        \<and> calculate_iou pb (bbox (snd r)) > bi)"
proof (induction xs arbitrary: bi best)
  case Nil
  then show ?case by simp
next
  case (Cons x xs)
  obtain i d where x: "x = (i, d)" by (cases x)
  show ?case
  proof (cases "i \<notin> m \<and> calculate_iou pb (bbox d) > bi \<and> calculate_iou pb (bbox d) > thr")
    case True
    then have "best_detection_loop thr pb m xs (calculate_iou pb (bbox d)) (Some (i, d)) = Some r"
      using Cons.prems by (auto simp: x Let_def)
    from Cons.IH [OF this] True show ?thesis by (auto simp: x)
  next
    case False
    then have "best_detection_loop thr pb m (x # xs) bi best = best_detection_loop thr pb m xs bi best"
      by (auto simp: x Let_def)
    then have "best_detection_loop thr pb m xs bi best = Some r"
      using Cons.prems by simp
    from Cons.IH [OF this] show ?thesis by auto
  qed
qed

lemma find_best_detection_None_iff:
  "find_best_detection t p pds m = None \<longleftrightarrow>
     (\<forall>i < length pds. i \<in> m \<or>
        \<not> (calculate_iou (poop_bbox p) (bbox (pds ! i)) > 0
           \<and> calculate_iou (poop_bbox p) (bbox (pds ! i)) > iou_threshold t))"
  unfolding find_best_detection_def best_detection_loop_None_iff
  by (auto simp: in_set_enumerate_eq)

lemma find_best_detection_Some:
  assumes "find_best_detection t p pds m = Some (i, d)"
  shows "i < length pds \<and> d = pds ! i \<and> i \<notin> m
         \<and> calculate_iou (poop_bbox p) (bbox d) > iou_threshold t
         \<and> calculate_iou (poop_bbox p) (bbox d) > 0"
  using best_detection_loop_Some [OF assms [unfolded find_best_detection_def]]
  by (auto simp: in_set_enumerate_eq)

lemma find_best_detection_zero_box:
  "poop_bbox p = (0, 0, 0, 0) \<Longrightarrow> find_best_detection t p pds m = None"
  by (simp add: find_best_detection_None_iff iou_zero_box)

lemma match_loop_Cons_fst:
  "fst (match_loop t now pds pers (p # ps) m) =
     (case find_best_detection t p pds m of
        Some (idx, d) \<Rightarrow> fst (on_match t now d p) # fst (match_loop t now pds pers ps (insert idx m))
      | None \<Rightarrow> fst (on_miss t pers p) # fst (match_loop t now pds pers ps m))"
  by (simp split: option.splits prod.splits)

lemma match_loop_Cons_matched:
  "fst (snd (match_loop t now pds pers (p # ps) m)) =
     (case find_best_detection t p pds m of
        Some (idx, d) \<Rightarrow> fst (snd (match_loop t now pds pers ps (insert idx m)))
      | None \<Rightarrow> fst (snd (match_loop t now pds pers ps m)))"
  by (simp split: option.splits prod.splits)

lemma match_loop_Cons_cleaned:
  "fst (snd (snd (match_loop t now pds pers (p # ps) m))) =
     (case find_best_detection t p pds m of
        Some (idx, d) \<Rightarrow> fst (snd (snd (match_loop t now pds pers ps (insert idx m))))
      | None \<Rightarrow> fst (snd (on_miss t pers p)) + fst (snd (snd (match_loop t now pds pers ps m))))"
  by (simp split: option.splits prod.splits)

lemma match_loop_Cons_events:
  "snd (snd (snd (match_loop t now pds pers (p # ps) m))) =
     (case find_best_detection t p pds m of
        Some (idx, d) \<Rightarrow> snd (on_match t now d p) @ snd (snd (snd (match_loop t now pds pers ps (insert idx m))))
      | None \<Rightarrow> snd (snd (on_miss t pers p)) @ snd (snd (snd (match_loop t now pds pers ps m))))"
  by (simp split: option.splits prod.splits)

lemma match_loop_length:
  "length (fst (match_loop t now pds pers ps m)) = length ps"
proof (induction ps arbitrary: m)
  case Nil
  then show ?case by simp
next
  case (Cons p ps)
  show ?case unfolding match_loop_Cons_fst by (simp add: Cons.IH split: option.splits)
qed

lemma match_loop_nth:
  "k < length ps \<Longrightarrow>
   fst (match_loop t now pds pers ps m) ! k =
     (case find_best_detection t (ps ! k) pds (claimed_before t pds ps m k) of
        Some (idx, d) \<Rightarrow> fst (on_match t now d (ps ! k))
      | None \<Rightarrow> fst (on_miss t pers (ps ! k)))"
proof (induction ps arbitrary: m k)
  case Nil
  then show ?case by simp
next
  case (Cons p ps)
  show ?case
  proof (cases k)
    case 0
    then show ?thesis unfolding match_loop_Cons_fst by (simp split: option.splits)
  next
    case (Suc j)
    with Cons.prems have j: "j < length ps" by simp
    show ?thesis
      unfolding match_loop_Cons_fst Suc by (simp add: Cons.IH [OF j] split: option.splits)
  qed
qed

subsection \<open>The branches, the creation loops and the shape of an update\<close>

lemma is_human_nearby_location:
  "location p = location q \<Longrightarrow> is_human_nearby p pers thr = is_human_nearby q pers thr"
  by (induction pers) (auto simp: Let_def split: prod.splits)

lemma on_match_fst:
  "fst (on_match t now d p) =
     p\<lparr>poop_bbox := bbox d, location := center d, last_seen := now, missing_frames := 0,
       cleanup_candidate_frames := 0,
       status := (if status p = Pending then Active else status p)\<rparr>"
  by (simp add: on_match_def Let_def)

lemma on_match_snd:
  "snd (on_match t now d p) =
     (if status p = Pending \<and> event_callback t then [PoopConfirmed (poop_id p) (center d)] else [])"
  by (simp add: on_match_def Let_def)

lemma near_missing [simp]:
  "is_human_nearby (p\<lparr>missing_frames := x\<rparr>) pers thr = is_human_nearby p pers thr"
  by (rule is_human_nearby_location) simp

lemma on_miss_fst:
  "fst (on_miss t pers p) =
     p\<lparr>missing_frames := missing_frames p + 1,
       cleanup_candidate_frames :=
         (if is_human_nearby p pers 100 then cleanup_candidate_frames p + 1 else 0),
       status := (if cleans t pers p then Cleaned else status p)\<rparr>"
  by (simp add: on_miss_def Let_def cleans_def)

lemma on_miss_cleaned:
  "fst (snd (on_miss t pers p)) = (if cleans t pers p then 1 else 0)"
  by (simp add: on_miss_def Let_def cleans_def)

lemma on_miss_events:
  "snd (snd (on_miss t pers p)) =
     (if cleans t pers p \<and> event_callback t then [PoopCleaned (poop_id p) (location p)] else [])"
  by (simp add: on_miss_def Let_def cleans_def)

lemma enumerate_0_Cons:
  "enumerate 0 (y # ys) = (0, y) # map (\<lambda>(j, e). (Suc j, e)) (enumerate 0 ys)"
  by (auto simp: enumerate_Suc_eq)

lemma create_loop_Cons_fst:
  "fst (create_loop t now m ((i, d) # xs) u) =
     (if i \<notin> m then detected_poop u now d # fst (create_loop t now m xs (Suc u))
      else fst (create_loop t now m xs u))"
  by (simp add: Let_def split: prod.splits)

lemma create_loop_Cons_snd:
  "snd (create_loop t now m ((i, d) # xs) u) =
     (if i \<notin> m
      then (if event_callback t
            then [PoopDetected u (center d) (bbox d)] else [])
           @ snd (create_loop t now m xs (Suc u))
      else snd (create_loop t now m xs u))"
  by (simp add: Let_def detected_poop_def split: prod.splits)

lemma create_loop_fst:
  "fst (create_loop t now m xs u) =
     map (\<lambda>(j, d). detected_poop j now d)
       (enumerate u (map snd (filter (\<lambda>(i, d). i \<notin> m) xs)))"
proof (induction xs arbitrary: u)
  case Nil
  then show ?case by simp
next
  case (Cons x xs)
  obtain i d where x: "x = (i, d)" by (cases x)
  show ?case
  proof (cases "i \<in> m")
    case True
    then show ?thesis unfolding x create_loop_Cons_fst by (simp add: Cons.IH)
  next
    case False
    then show ?thesis
      unfolding x create_loop_Cons_fst
      by (simp add: Cons.IH)
  qed
qed

lemma create_loop_snd:
  "snd (create_loop t now m xs u) =
     (if event_callback t
      then map (\<lambda>p. PoopDetected (poop_id p) (location p) (poop_bbox p)) (fst (create_loop t now m xs u))
      else [])"
proof (induction xs arbitrary: u)
  case Nil
  then show ?case by simp
next
  case (Cons x xs)
  obtain i d where x: "x = (i, d)" by (cases x)
  show ?case unfolding x create_loop_Cons_fst create_loop_Cons_snd
    by (simp add: Cons.IH detected_poop_def)
qed

lemma pending_loop_eq:
  "pending_loop now ls u = map (\<lambda>(j, l). pending_poop j now l) (enumerate u ls)"
proof (induction ls arbitrary: u)
  case Nil
  then show ?case by simp
next
  case (Cons l ls)
  show ?case by (simp add: Cons.IH)
qed

lemma created_poops_eq:
  "created_poops t now ds =
     map (\<lambda>(j, d). detected_poop j now d)
       (enumerate (uuid_counter t) (unclaimed_detections t now ds))"
  by (simp add: created_poops_def unclaimed_detections_def create_loop_fst)

lemma update_fst:
  "fst (update t now ds ls) =
     t\<lparr>active_poops := filter (\<lambda>p. \<not> pruned t p)
          (matched_poops t now ds @ created_poops t now ds @ created_pendings t now ds ls),
       cleaned_count := cleaned_count t
          + fst (snd (snd (match_loop t now (poop_detections ds) (person_detections ds) (active_poops t) {}))),
       total_deposits := total_deposits t + int (length (created_poops t now ds)),
       uuid_counter := uuid_counter t + length (created_poops t now ds) + length ls\<rparr>"
  by (simp add: update_def Let_def matched_poops_def created_poops_def created_pendings_def
      pruned_def pending_loop_eq split: prod.splits)

lemma update_snd:
  "snd (update t now ds ls) =
     snd (snd (snd (match_loop t now (poop_detections ds) (person_detections ds) (active_poops t) {})))
     @ (if event_callback t
        then map (\<lambda>p. PoopDetected (poop_id p) (location p) (poop_bbox p)) (created_poops t now ds)
        else [])"
proof -
  have "snd (update t now ds ls) =
     snd (snd (snd (match_loop t now (poop_detections ds) (person_detections ds) (active_poops t) {})))
     @ snd (create_loop t now
            (fst (snd (match_loop t now (poop_detections ds) (person_detections ds) (active_poops t) {})))
            (enumerate 0 (poop_detections ds)) (uuid_counter t))"
    by (simp add: update_def Let_def split: prod.splits)
  then show ?thesis by (simp add: create_loop_snd created_poops_def)
qed

subsection \<open>Creation of deposits\<close>

lemma match_loop_matched:
  "fst (snd (match_loop t now pds pers ps m)) =
     m \<union> {i. \<exists>k < length ps. \<exists>d.
              find_best_detection t (ps ! k) pds (claimed_before t pds ps m k) = Some (i, d)}"
proof (induction ps arbitrary: m)
  case Nil
  then show ?case by simp
next
  case (Cons p ps)
  show ?case
  proof (cases "find_best_detection t p pds m")
    case None
    then show ?thesis
      unfolding match_loop_Cons_matched
      by (auto simp: Cons.IH less_Suc_eq_0_disj)
  next
    case (Some r)
    obtain idx d where r: "r = (idx, d)" by (cases r)
    show ?thesis
      unfolding match_loop_Cons_matched
      by (auto simp: Cons.IH less_Suc_eq_0_disj Some r)
  qed
qed

lemma match_loop_events_kinds:
  "e \<in> set (snd (snd (snd (match_loop t now pds pers ps m)))) \<Longrightarrow> \<not> is_detected_event e"
proof (induction ps arbitrary: m)
  case Nil
  then show ?case by simp
next
  case (Cons p ps)
  then show ?case
    unfolding match_loop_Cons_events
    by (auto simp: on_match_snd on_miss_events split: option.splits if_splits)
qed

lemma filter_detected_match_events:
  "filter is_detected_event (snd (snd (snd (match_loop t now pds pers ps m)))) = []"
  by (auto simp: filter_empty_conv dest: match_loop_events_kinds)

lemma created_not_pruned:
  "0 < stale_threshold t \<Longrightarrow> p \<in> set (created_poops t now ds) \<Longrightarrow> \<not> pruned t p"
  by (auto simp: created_poops_eq pruned_def detected_poop_def)

lemma pendings_not_pruned:
  "0 < stale_threshold t \<Longrightarrow> p \<in> set (created_pendings t now ds ls) \<Longrightarrow> \<not> pruned t p"
  by (auto simp: created_pendings_def pending_loop_eq pruned_def pending_poop_def)

lemma update_active_poops:
  "active_poops (fst (update t now ds ls)) =
     filter (\<lambda>p. \<not> pruned t p)
       (matched_poops t now ds @ created_poops t now ds @ created_pendings t now ds ls)"
  by (simp add: update_fst)

lemma update_active_poops_kept:
  assumes "0 < stale_threshold t"
  shows "active_poops (fst (update t now ds ls)) =
     filter (\<lambda>p. \<not> pruned t p) (matched_poops t now ds)
     @ created_poops t now ds @ created_pendings t now ds ls"
proof -
  have "filter (\<lambda>p. \<not> pruned t p) (created_poops t now ds) = created_poops t now ds"
    using created_not_pruned [OF assms] by (simp add: filter_id_conv)
  moreover have "filter (\<lambda>p. \<not> pruned t p) (created_pendings t now ds ls) = created_pendings t now ds ls"
    using pendings_not_pruned [OF assms] by (simp add: filter_id_conv)
  ultimately show ?thesis by (simp add: update_active_poops)
qed

lemma unclaimed_detections_claims:
  "unclaimed_detections t now ds =
     map snd (filter (\<lambda>(i, d). \<forall>k < length (active_poops t). \<forall>d'. claim_of t ds k \<noteq> Some (i, d'))
                (enumerate 0 (poop_detections ds)))"
  unfolding unclaimed_detections_def match_loop_matched claim_of_def
  by (rule arg_cong [where f = "map snd"], rule filter_cong) auto

lemma map_snd_enumerate_fun:
  "map (\<lambda>x. f (snd x)) (enumerate n xs) = map f xs"
  by (induction xs arbitrary: n) simp_all

lemma map_fst_enumerate_fun:
  "map (\<lambda>x. f (fst x)) (enumerate n xs) = map f [n ..< n + length xs]"
  by (induction xs arbitrary: n) (simp_all add: upt_rec)

text \<open>
  C6: the detections no deposit claimed are those whose index no deposit obtained in the
  matching loop; \<open>update\<close> creates one deposit for each, in order, with status active,
  the detection's center and box and a fresh id; \<open>total_deposits\<close> grows by their number;
  with a callback registered, the \<open>poop_detected\<close> calls are exactly one per created
  deposit, carrying its id, location and box; and with a positive staleness threshold
  every created deposit is in the tracker when \<open>update\<close> returns.
\<close>

theorem detected_deposits:
  "unclaimed_detections t now ds =
     map snd (filter (\<lambda>(i, d). \<forall>k < length (active_poops t). \<forall>d'. claim_of t ds k \<noteq> Some (i, d'))
                (enumerate 0 (poop_detections ds)))
   \<and> created_poops t now ds =
       map (\<lambda>(j, d). detected_poop j now d)
         (enumerate (uuid_counter t) (unclaimed_detections t now ds))
   \<and> map status (created_poops t now ds)
       = replicate (length (unclaimed_detections t now ds)) Active
   \<and> map location (created_poops t now ds) = map center (unclaimed_detections t now ds)
   \<and> map poop_bbox (created_poops t now ds) = map bbox (unclaimed_detections t now ds)
   \<and> map poop_id (created_poops t now ds)
       = [uuid_counter t ..< uuid_counter t + length (unclaimed_detections t now ds)]
   \<and> total_deposits (fst (update t now ds ls))
       = total_deposits t + int (length (unclaimed_detections t now ds))
   \<and> (event_callback t \<longrightarrow>
        filter is_detected_event (snd (update t now ds ls)) =
          map (\<lambda>p. PoopDetected (poop_id p) (location p) (poop_bbox p)) (created_poops t now ds))
   \<and> (0 < stale_threshold t \<longrightarrow>
        active_poops (fst (update t now ds ls)) =
          filter (\<lambda>p. \<not> pruned t p) (matched_poops t now ds)
          @ created_poops t now ds @ created_pendings t now ds ls)"
proof -
  let ?u = "unclaimed_detections t now ds"
  have st: "map status (created_poops t now ds) = replicate (length ?u) Active"
    by (simp add: created_poops_eq detected_poop_def case_prod_beta comp_def map_replicate_const)
  have loc: "map location (created_poops t now ds) = map center ?u"
    by (simp add: created_poops_eq detected_poop_def case_prod_beta comp_def map_snd_enumerate_fun)
  have bb: "map poop_bbox (created_poops t now ds) = map bbox ?u"
    by (simp add: created_poops_eq detected_poop_def case_prod_beta comp_def map_snd_enumerate_fun)
  have ids: "map poop_id (created_poops t now ds)
       = [uuid_counter t ..< uuid_counter t + length ?u]"
    using map_fst_enumerate_fun [of "\<lambda>x. x" "uuid_counter t" ?u]
    by (simp add: created_poops_eq detected_poop_def case_prod_beta comp_def)
  have tot: "total_deposits (fst (update t now ds ls)) = total_deposits t + int (length ?u)"
    by (simp add: update_fst created_poops_eq)
  have ev: "filter is_detected_event (snd (update t now ds ls)) =
          map (\<lambda>p. PoopDetected (poop_id p) (location p) (poop_bbox p)) (created_poops t now ds)"
    if "event_callback t"
    using that by (simp add: update_snd filter_detected_match_events filter_id_conv)
  show ?thesis
    using unclaimed_detections_claims created_poops_eq st loc bb ids tot ev
      update_active_poops_kept by blast
qed

lemmas eval_simps = update_def init_tracker_def create_poop_detection_def create_person_detection_def
  poop_detections_def person_detections_def find_best_detection_def on_match_def on_miss_def
  center_def detected_poop_def pending_poop_def Let_def

lemma one_poop_eq:
  "one_poop = \<lparr>iou_threshold = 3 / 10, stale_threshold = 30, cleanup_confirm_frames = 2,
      event_callback = True,
      active_poops = [\<lparr>poop_id = 0, location = (115, 115), poop_bbox = (100, 100, 130, 130),
                        first_seen = 0, last_seen = 0, status = Active, deposited_by = None,
                        missing_frames = 0, cleanup_candidate_frames = 0\<rparr>],
      cleaned_count = 0, total_deposits = 1, uuid_counter = 1\<rparr>"
  by (simp add: one_poop_def eval_simps)

theorem detected_deposits_witness:
  "event_callback one_poop \<and> 0 < stale_threshold one_poop
   \<and> unclaimed_detections one_poop 1
        [create_poop_detection 116 116 30, create_poop_detection 300 300 30]
       = [create_poop_detection 300 300 30]
   \<and> map status (created_poops one_poop 1
        [create_poop_detection 116 116 30, create_poop_detection 300 300 30]) = [Active]
   \<and> total_deposits (fst (update one_poop 1
        [create_poop_detection 116 116 30, create_poop_detection 300 300 30] [(5, 5)])) = 2
   \<and> filter is_detected_event (snd (update one_poop 1
        [create_poop_detection 116 116 30, create_poop_detection 300 300 30] [(5, 5)]))
       = [PoopDetected 1 (300, 300) (285, 285, 315, 315)]
   \<and> map poop_id (active_poops (fst (update one_poop 1
        [create_poop_detection 116 116 30, create_poop_detection 300 300 30] [(5, 5)])))
       = [0, 1, 2]"
  using detected_deposits [of one_poop 1
      "[create_poop_detection 116 116 30, create_poop_detection 300 300 30]" "[(5, 5)]"]
  by (simp add: one_poop_eq eval_simps unclaimed_detections_def created_poops_def
      created_pendings_def matched_poops_def pruned_def)

text \<open>
  C7: \<open>update\<close> creates one deposit per pooping event, in order and without looking at the
  deposits that exist: its status is pending and its location the event's. The events
  change neither the callback calls nor \<open>total_deposits\<close>, and with a positive staleness
  threshold the \<open>n\<close> new deposits are all in the tracker when \<open>update\<close> returns.
\<close>

theorem pending_deposits:
  "created_pendings t now ds ls =
     map (\<lambda>(j, l). pending_poop j now l)
       (enumerate (uuid_counter t + length (created_poops t now ds)) ls)
   \<and> length (created_pendings t now ds ls) = length ls
   \<and> map status (created_pendings t now ds ls) = replicate (length ls) Pending
   \<and> map location (created_pendings t now ds ls) = ls
   \<and> snd (update t now ds ls) = snd (update t now ds [])
   \<and> total_deposits (fst (update t now ds ls)) = total_deposits (fst (update t now ds []))
   \<and> (0 < stale_threshold t \<longrightarrow>
        active_poops (fst (update t now ds ls)) =
          active_poops (fst (update t now ds [])) @ created_pendings t now ds ls)"
proof -
  have eq: "created_pendings t now ds ls =
     map (\<lambda>(j, l). pending_poop j now l)
       (enumerate (uuid_counter t + length (created_poops t now ds)) ls)"
    by (simp add: created_pendings_def pending_loop_eq)
  have len: "length (created_pendings t now ds ls) = length ls"
    by (simp add: eq)
  have st: "map status (created_pendings t now ds ls) = replicate (length ls) Pending"
    by (simp add: eq pending_poop_def case_prod_beta comp_def map_replicate_const)
  have loc: "map location (created_pendings t now ds ls) = ls"
    using map_snd_enumerate_fun [of "\<lambda>x. x" "uuid_counter t + length (created_poops t now ds)" ls]
    by (simp add: eq pending_poop_def case_prod_beta comp_def)
  have ev: "snd (update t now ds ls) = snd (update t now ds [])"
    by (simp add: update_snd)
  have tot: "total_deposits (fst (update t now ds ls)) = total_deposits (fst (update t now ds []))"
    by (simp add: update_fst)
  have act: "active_poops (fst (update t now ds ls)) =
          active_poops (fst (update t now ds [])) @ created_pendings t now ds ls"
    if "0 < stale_threshold t"
    using update_active_poops_kept [OF that]
    by (simp add: created_pendings_def)
  from eq len st loc ev tot act show ?thesis by blast
qed

theorem pending_deposits_witness:
  "0 < stale_threshold one_poop
   \<and> map status (created_pendings one_poop 1 [] [(5, 5), (5, 5), (7, 9)])
       = [Pending, Pending, Pending]
   \<and> map location (created_pendings one_poop 1 [] [(5, 5), (5, 5), (7, 9)])
       = [(5, 5), (5, 5), (7, 9)]
   \<and> snd (update one_poop 1 [] [(5, 5), (5, 5), (7, 9)]) = []
   \<and> total_deposits (fst (update one_poop 1 [] [(5, 5), (5, 5), (7, 9)])) = 1
   \<and> map status (active_poops (fst (update one_poop 1 [] [(5, 5), (5, 5), (7, 9)])))
       = [Active, Pending, Pending, Pending]"
  using pending_deposits [of one_poop 1 "[]" "[(5, 5), (5, 5), (7, 9)]"]
  by (simp add: one_poop_eq eval_simps created_poops_def created_pendings_def)

subsection \<open>Runs and the invariant of ids\<close>

lemma update_config [simp]:
  "iou_threshold (fst (update t now ds ls)) = iou_threshold t"
  "stale_threshold (fst (update t now ds ls)) = stale_threshold t"
  "cleanup_confirm_frames (fst (update t now ds ls)) = cleanup_confirm_frames t"
  "event_callback (fst (update t now ds ls)) = event_callback t"
  by (simp_all add: update_fst)

lemma run_config [simp]:
  "iou_threshold (run t frames) = iou_threshold t"
  "stale_threshold (run t frames) = stale_threshold t"
  "cleanup_confirm_frames (run t frames) = cleanup_confirm_frames t"
  "event_callback (run t frames) = event_callback t"
  by (induction t frames rule: run.induct) simp_all

lemma run_snoc:
  "run t (frames @ [(now, ds, ls)]) = fst (update (run t frames) now ds ls)"
  by (induction t frames rule: run.induct) simp_all

lemma run_events_snoc:
  "run_events t (frames @ [(now, ds, ls)]) =
     run_events t frames @ snd (update (run t frames) now ds ls)"
  by (induction t frames rule: run_events.induct) simp_all

lemma cycles_snoc:
  "cycles t (frames @ [(now, ds, ls)]) = cycles t frames @ [(run t frames, (now, ds, ls))]"
  by (induction t frames rule: cycles.induct) simp_all

lemma length_cycles [simp]: "length (cycles t frames) = length frames"
  by (induction t frames rule: cycles.induct) simp_all

lemma on_match_id [simp]: "poop_id (fst (on_match t now d p)) = poop_id p"
  by (simp add: on_match_fst)

lemma on_miss_id [simp]: "poop_id (fst (on_miss t pers p)) = poop_id p"
  by (simp add: on_miss_fst)

lemma match_loop_ids:
  "map poop_id (fst (match_loop t now pds pers ps m)) = map poop_id ps"
proof (induction ps arbitrary: m)
  case Nil
  then show ?case by simp
next
  case (Cons p ps)
  show ?case unfolding match_loop_Cons_fst by (simp add: Cons.IH split: option.splits)
qed

lemma matched_poops_ids: "map poop_id (matched_poops t now ds) = map poop_id (active_poops t)"
  by (simp add: matched_poops_def match_loop_ids)

lemma matched_poops_length [simp]: "length (matched_poops t now ds) = length (active_poops t)"
  by (simp add: matched_poops_def match_loop_length)

lemma matched_poops_nth:
  "k < length (active_poops t) \<Longrightarrow>
   matched_poops t now ds ! k =
     (case claim_of t ds k of
        Some (idx, d) \<Rightarrow> fst (on_match t now d (active_poops t ! k))
      | None \<Rightarrow> fst (on_miss t (person_detections ds) (active_poops t ! k)))"
  by (simp add: matched_poops_def claim_of_def match_loop_nth)

lemma created_poops_ids:
  "map poop_id (created_poops t now ds) =
     [uuid_counter t ..< uuid_counter t + length (created_poops t now ds)]"
  using map_fst_enumerate_fun [of "\<lambda>x. x" "uuid_counter t" "unclaimed_detections t now ds"]
  by (simp add: created_poops_eq detected_poop_def case_prod_beta comp_def)

lemma created_pendings_ids:
  "map poop_id (created_pendings t now ds ls) =
     [uuid_counter t + length (created_poops t now ds)
      ..< uuid_counter t + length (created_poops t now ds) + length ls]"
  using map_fst_enumerate_fun [of "\<lambda>x. x" "uuid_counter t + length (created_poops t now ds)" ls]
  by (simp add: created_pendings_def pending_loop_eq pending_poop_def case_prod_beta comp_def)

lemma all_poops_ids:
  "map poop_id (matched_poops t now ds @ created_poops t now ds @ created_pendings t now ds ls) =
     map poop_id (active_poops t)
     @ [uuid_counter t ..< uuid_counter t + length (created_poops t now ds) + length ls]"
proof -
  have "[uuid_counter t ..< uuid_counter t + length (created_poops t now ds) + length ls] =
        [uuid_counter t ..< uuid_counter t + length (created_poops t now ds)]
        @ [uuid_counter t + length (created_poops t now ds)
           ..< uuid_counter t + length (created_poops t now ds) + length ls]"
    by (metis le_add1 upt_add_eq_append)
  then show ?thesis
    using created_poops_ids [of t now ds] created_pendings_ids [of t now ds ls]
    by (simp add: matched_poops_ids)
qed

lemma all_poops_distinct:
  assumes "tracker_ok t"
  shows "distinct (map poop_id
           (matched_poops t now ds @ created_poops t now ds @ created_pendings t now ds ls))"
proof -
  have "\<forall>i \<in> set (map poop_id (active_poops t)). i < uuid_counter t"
    using assms by (auto simp: tracker_ok_def)
  then show ?thesis
    unfolding all_poops_ids using assms by (auto simp: tracker_ok_def)
qed

lemma tracker_ok_update:
  assumes "tracker_ok t"
  shows "tracker_ok (fst (update t now ds ls))"
proof -
  let ?all = "matched_poops t now ds @ created_poops t now ds @ created_pendings t now ds ls"
  have d: "distinct (map poop_id (filter (\<lambda>p. \<not> pruned t p) ?all))"
    using all_poops_distinct [OF assms] by (rule distinct_map_filter)
  have "\<forall>i \<in> set (map poop_id ?all). i < uuid_counter t + length (created_poops t now ds) + length ls"
    unfolding all_poops_ids using assms by (auto simp: tracker_ok_def)
  then have b: "\<forall>p \<in> set ?all. poop_id p < uuid_counter t + length (created_poops t now ds) + length ls"
    by auto
  show ?thesis
    unfolding tracker_ok_def update_fst using d b by (auto simp: pruned_def)
qed

lemma tracker_ok_init: "tracker_ok (init_tracker iou stale confirm cb)"
  by (simp add: tracker_ok_def init_tracker_def)

lemma tracker_ok_run: "tracker_ok t \<Longrightarrow> tracker_ok (run t frames)"
  by (induction t frames rule: run.induct) (simp_all add: tracker_ok_update)

subsection \<open>Cleaning, pruning and the callback\<close>

lemma cleaned_ids_append [simp]: "cleaned_ids (xs @ ys) = cleaned_ids xs @ cleaned_ids ys"
  by (induction xs rule: cleaned_ids.induct) simp_all

lemma cleaned_ids_detected [simp]:
  "cleaned_ids (map (\<lambda>p. PoopDetected (f p) (g p) (h p)) xs) = []"
  by (induction xs) simp_all

lemma on_match_status_cleaned:
  "status (fst (on_match t now d p)) = Cleaned \<longleftrightarrow> status p = Cleaned"
  by (simp add: on_match_fst)

lemma on_miss_status_cleaned:
  "status (fst (on_miss t pers p)) = Cleaned \<longleftrightarrow> cleans t pers p \<or> status p = Cleaned"
  by (simp add: on_miss_fst)

lemma match_loop_cleaned_ids:
  assumes "\<forall>p \<in> set ps. status p \<noteq> Cleaned" and "event_callback t"
  shows "cleaned_ids (snd (snd (snd (match_loop t now pds pers ps m)))) =
         map poop_id (filter (\<lambda>p. status p = Cleaned) (fst (match_loop t now pds pers ps m)))"
  using assms(1)
proof (induction ps arbitrary: m)
  case Nil
  then show ?case by simp
next
  case (Cons p ps)
  then have p: "status p \<noteq> Cleaned" and ps: "\<forall>q \<in> set ps. status q \<noteq> Cleaned" by simp_all
  show ?case
    unfolding match_loop_Cons_events match_loop_Cons_fst
    using p assms(2)
    by (simp add: Cons.IH [OF ps] on_match_snd on_miss_events on_match_status_cleaned
        on_miss_status_cleaned split: option.splits)
qed

lemma match_loop_cleaned_ids_subset:
  "i \<in> set (cleaned_ids (snd (snd (snd (match_loop t now pds pers ps m))))) \<Longrightarrow>
     \<exists>q \<in> set (fst (match_loop t now pds pers ps m)). status q = Cleaned \<and> poop_id q = i"
proof (induction ps arbitrary: m)
  case Nil
  then show ?case by simp
next
  case (Cons p ps)
  show ?case
  proof (cases "find_best_detection t p pds m")
    case None
    from Cons.prems consider
        (here) "i \<in> set (cleaned_ids (snd (snd (on_miss t pers p))))"
      | (later) "i \<in> set (cleaned_ids (snd (snd (snd (match_loop t now pds pers ps m)))))"
      unfolding match_loop_Cons_events by (auto simp: None)
    then show ?thesis
    proof cases
      case here
      then have "cleans t pers p" "i = poop_id p"
        by (auto simp: on_miss_events split: if_splits)
      then have "status (fst (on_miss t pers p)) = Cleaned \<and> poop_id (fst (on_miss t pers p)) = i"
        by (simp add: on_miss_status_cleaned)
      then show ?thesis unfolding match_loop_Cons_fst by (auto simp: None)
    next
      case later
      from Cons.IH [OF this] show ?thesis unfolding match_loop_Cons_fst by (auto simp: None)
    qed
  next
    case (Some r)
    obtain idx d where r: "r = (idx, d)" by (cases r)
    from Cons.prems
    have "i \<in> set (cleaned_ids (snd (snd (snd (match_loop t now pds pers ps (insert idx m))))))"
      unfolding match_loop_Cons_events by (auto simp: Some r on_match_snd split: if_splits)
    from Cons.IH [OF this] show ?thesis unfolding match_loop_Cons_fst by (auto simp: Some r)
  qed
qed

lemma match_loop_cleaned_count:
  assumes "\<forall>p \<in> set ps. status p \<noteq> Cleaned"
  shows "fst (snd (snd (match_loop t now pds pers ps m))) =
         int (length (filter (\<lambda>p. status p = Cleaned) (fst (match_loop t now pds pers ps m))))"
  using assms
proof (induction ps arbitrary: m)
  case Nil
  then show ?case by simp
next
  case (Cons p ps)
  then have p: "status p \<noteq> Cleaned" and ps: "\<forall>q \<in> set ps. status q \<noteq> Cleaned" by simp_all
  show ?case
    unfolding match_loop_Cons_cleaned match_loop_Cons_fst
    using p
    by (simp add: Cons.IH [OF ps] on_miss_cleaned on_match_status_cleaned
        on_miss_status_cleaned split: option.splits)
qed

lemma update_cleaned_ids:
  assumes "\<forall>p \<in> set (active_poops t). status p \<noteq> Cleaned" and "event_callback t"
  shows "cleaned_ids (snd (update t now ds ls)) =
         map poop_id (filter (\<lambda>p. status p = Cleaned) (matched_poops t now ds))"
  using match_loop_cleaned_ids [OF assms]
  by (simp add: update_snd matched_poops_def)

lemma update_cleaned_ids_subset:
  "i \<in> set (cleaned_ids (snd (update t now ds ls))) \<Longrightarrow>
     \<exists>q \<in> set (matched_poops t now ds). status q = Cleaned \<and> poop_id q = i"
  using match_loop_cleaned_ids_subset [of i t now "poop_detections ds" "person_detections ds"
      "active_poops t" "{}"]
  by (auto simp: update_snd matched_poops_def split: if_splits)

lemma update_cleaned_count:
  assumes "\<forall>p \<in> set (active_poops t). status p \<noteq> Cleaned"
  shows "cleaned_count (fst (update t now ds ls)) =
         cleaned_count t
         + int (length (filter (\<lambda>p. status p = Cleaned) (matched_poops t now ds)))"
  using match_loop_cleaned_count [OF assms]
  by (simp add: update_fst matched_poops_def)

lemma not_cleaned_not_notified:
  assumes ok: "tracker_ok t"
    and p: "p \<in> set (matched_poops t now ds @ created_poops t now ds @ created_pendings t now ds ls)"
    and st: "status p \<noteq> Cleaned"
  shows "poop_id p \<notin> set (cleaned_ids (snd (update t now ds ls)))"
proof
  assume "poop_id p \<in> set (cleaned_ids (snd (update t now ds ls)))"
  from update_cleaned_ids_subset [OF this] obtain q
    where q: "q \<in> set (matched_poops t now ds)" "status q = Cleaned" "poop_id q = poop_id p"
    by blast
  let ?all = "matched_poops t now ds @ created_poops t now ds @ created_pendings t now ds ls"
  have "inj_on poop_id (set ?all)"
    using all_poops_distinct [OF ok] by (simp only: distinct_map)
  moreover have "q \<in> set ?all" using q(1) by simp
  ultimately have "q = p" using p q(3) by (auto dest: inj_onD)
  with q(2) st show False by simp
qed

text \<open>
  C4, as the code has it: a deposit of the list that the cycle has built (the deposits that
  existed, as the matching loop left them, then the created ones) is absent from the
  tracker when \<open>update\<close> returns exactly when its status is cleaned or its
  \<open>missing_frames\<close> has reached \<open>stale_threshold\<close> (at least the threshold, not only beyond
  it), whatever its status. The \<open>poop_cleaned\<close> calls name exactly the deposits marked
  cleaned in this cycle, so in a tracker reached from the empty one a deposit dropped with
  another status is named in none.
\<close>

theorem prune_rule:
  "(p \<in> set (matched_poops t now ds @ created_poops t now ds @ created_pendings t now ds ls) \<longrightarrow>
      (p \<notin> set (active_poops (fst (update t now ds ls))) \<longleftrightarrow>
         status p = Cleaned \<or> missing_frames p \<ge> stale_threshold t))
   \<and> set (active_poops (fst (update t now ds ls))) \<subseteq>
       set (matched_poops t now ds @ created_poops t now ds @ created_pendings t now ds ls)
   \<and> tracker_ok (run (init_tracker iou stale confirm cb) frames)
   \<and> (tracker_ok t \<and> event_callback t \<longrightarrow>
        cleaned_ids (snd (update t now ds ls)) =
          map poop_id (filter (\<lambda>q. status q = Cleaned) (matched_poops t now ds)))
   \<and> (tracker_ok t
        \<and> p \<in> set (matched_poops t now ds @ created_poops t now ds @ created_pendings t now ds ls)
        \<and> status p \<noteq> Cleaned \<longrightarrow>
        poop_id p \<notin> set (cleaned_ids (snd (update t now ds ls))))"
proof -
  have a: "p \<notin> set (active_poops (fst (update t now ds ls))) \<longleftrightarrow>
         status p = Cleaned \<or> missing_frames p \<ge> stale_threshold t"
    if "p \<in> set (matched_poops t now ds @ created_poops t now ds @ created_pendings t now ds ls)"
    using that by (auto simp: update_active_poops pruned_def)
  have b: "set (active_poops (fst (update t now ds ls))) \<subseteq>
       set (matched_poops t now ds @ created_poops t now ds @ created_pendings t now ds ls)"
    by (auto simp: update_active_poops)
  have c: "tracker_ok (run (init_tracker iou stale confirm cb) frames)"
    by (rule tracker_ok_run [OF tracker_ok_init])
  have d: "cleaned_ids (snd (update t now ds ls)) =
          map poop_id (filter (\<lambda>q. status q = Cleaned) (matched_poops t now ds))"
    if "tracker_ok t" "event_callback t"
    using that by (intro update_cleaned_ids) (auto simp: tracker_ok_def)
  from a b c d not_cleaned_not_notified show ?thesis by blast
qed

theorem prune_exceeds_counterexample:
  "map status (matched_poops stale_one 1 []) = [Active]
   \<and> map missing_frames (matched_poops stale_one 1 []) = [1]
   \<and> stale_threshold stale_one = 1
   \<and> \<not> (1 > stale_threshold stale_one)
   \<and> active_poops (fst (update stale_one 1 [] [])) = []
   \<and> snd (update stale_one 1 [] []) = []"
  by (simp add: stale_one_def eval_simps matched_poops_def)

theorem prune_rule_witness:
  "\<lparr>poop_id = 0, location = (115, 115), poop_bbox = (100, 100, 130, 130), first_seen = 0,
     last_seen = 0, status = Active, deposited_by = None, missing_frames = 1,
     cleanup_candidate_frames = 0\<rparr>
     \<in> set (matched_poops stale_one 1 [] @ created_poops stale_one 1 []
              @ created_pendings stale_one 1 [] [])
   \<and> tracker_ok stale_one \<and> event_callback stale_one
   \<and> stale_threshold stale_one \<le> 1
   \<and> active_poops (fst (update stale_one 1 [] [])) = []
   \<and> cleaned_ids (snd (update stale_one 1 [] [])) = []"
  using prune_rule [of "\<lparr>poop_id = 0, location = (115, 115), poop_bbox = (100, 100, 130, 130),
     first_seen = 0, last_seen = 0, status = Active, deposited_by = None, missing_frames = 1,
     cleanup_candidate_frames = 0\<rparr>" stale_one 1 "[]" "[]" 0 0 0 True "[]"]
  by (simp add: stale_one_def eval_simps matched_poops_def created_poops_def
      created_pendings_def tracker_ok_def)

subsection \<open>Status transitions\<close>

lemma status_step:
  assumes k: "k < length (active_poops t)"
  shows "poop_id (matched_poops t now ds ! k) = poop_id (active_poops t ! k)
   \<and> (status (matched_poops t now ds ! k) = status (active_poops t ! k)
      \<or> (status (active_poops t ! k) = Pending \<and> status (matched_poops t now ds ! k) = Active
          \<and> claim_of t ds k \<noteq> None)
      \<or> (status (active_poops t ! k) \<noteq> Cleaned \<and> status (matched_poops t now ds ! k) = Cleaned
          \<and> claim_of t ds k = None
          \<and> cleans t (person_detections ds) (active_poops t ! k)))"
proof (cases "claim_of t ds k")
  case None
  then show ?thesis
    by (auto simp: matched_poops_nth [OF k] on_miss_fst)
next
  case (Some r)
  obtain idx d where r: "r = (idx, d)" by (cases r)
  show ?thesis
    by (simp add: matched_poops_nth [OF k] Some r on_match_fst)
qed

lemma status_rank_step:
  assumes k: "k < length (active_poops t)"
  shows "status_rank (status (active_poops t ! k)) \<le> status_rank (status (matched_poops t now ds ! k))"
  using status_step [OF k, of now ds]
  by (cases "status (active_poops t ! k)"; cases "status (matched_poops t now ds ! k)") auto

lemma survivor_is_matched:
  assumes ok: "tracker_ok t"
    and q: "q \<in> set (active_poops (fst (update t now ds ls)))"
    and k: "k < length (active_poops t)"
    and i: "poop_id q = poop_id (active_poops t ! k)"
  shows "q = matched_poops t now ds ! k"
proof -
  let ?all = "matched_poops t now ds @ created_poops t now ds @ created_pendings t now ds ls"
  have inj: "inj_on poop_id (set ?all)"
    using all_poops_distinct [OF ok] by (simp only: distinct_map)
  have "q \<in> set ?all" using q by (auto simp: update_active_poops)
  moreover have "matched_poops t now ds ! k \<in> set ?all"
    using k by (simp add: nth_mem)
  moreover have "poop_id (matched_poops t now ds ! k) = poop_id q"
    using status_step [OF k] i by simp
  ultimately show ?thesis using inj by (auto dest: inj_onD)
qed

text \<open>
  C2, as the code has it: in one \<open>update\<close> a deposit keeps its id and its status either
  stays, or goes from pending to active (only when the deposit obtained a detection), or
  goes to cleaned from pending or from active (only when it obtained none, a person is
  nearby and the streak counter reaches the confirm count). The status never moves
  backwards: not out of cleaned, not from active to pending. The tracker \<open>update\<close>
  returns holds a sublist of these deposits and of the created ones, and in a tracker
  reached from the empty one ids identify deposits, so the same holds between the
  tracker before and after.
\<close>

theorem status_transitions:
  "(k < length (active_poops t) \<longrightarrow>
      poop_id (matched_poops t now ds ! k) = poop_id (active_poops t ! k)
      \<and> (status (matched_poops t now ds ! k) = status (active_poops t ! k)
         \<or> (status (active_poops t ! k) = Pending \<and> status (matched_poops t now ds ! k) = Active
             \<and> claim_of t ds k \<noteq> None)
         \<or> (status (active_poops t ! k) \<noteq> Cleaned \<and> status (matched_poops t now ds ! k) = Cleaned
             \<and> claim_of t ds k = None
             \<and> is_human_nearby (active_poops t ! k) (person_detections ds) 100
             \<and> cleanup_candidate_frames (active_poops t ! k) + 1 \<ge> cleanup_confirm_frames t))
      \<and> status_rank (status (active_poops t ! k))
          \<le> status_rank (status (matched_poops t now ds ! k)))
   \<and> active_poops (fst (update t now ds ls)) =
       filter (\<lambda>p. \<not> pruned t p)
         (matched_poops t now ds @ created_poops t now ds @ created_pendings t now ds ls)
   \<and> (tracker_ok t \<and> k < length (active_poops t)
        \<and> q \<in> set (active_poops (fst (update t now ds ls)))
        \<and> poop_id q = poop_id (active_poops t ! k) \<longrightarrow>
        q = matched_poops t now ds ! k
        \<and> status_rank (status (active_poops t ! k)) \<le> status_rank (status q))
   \<and> tracker_ok (run (init_tracker iou stale confirm cb) frames)"
proof -
  have a: "poop_id (matched_poops t now ds ! k) = poop_id (active_poops t ! k)
      \<and> (status (matched_poops t now ds ! k) = status (active_poops t ! k)
         \<or> (status (active_poops t ! k) = Pending \<and> status (matched_poops t now ds ! k) = Active
             \<and> claim_of t ds k \<noteq> None)
         \<or> (status (active_poops t ! k) \<noteq> Cleaned \<and> status (matched_poops t now ds ! k) = Cleaned
             \<and> claim_of t ds k = None
             \<and> is_human_nearby (active_poops t ! k) (person_detections ds) 100
             \<and> cleanup_candidate_frames (active_poops t ! k) + 1 \<ge> cleanup_confirm_frames t))
      \<and> status_rank (status (active_poops t ! k))
          \<le> status_rank (status (matched_poops t now ds ! k))"
    if "k < length (active_poops t)"
    using status_step [OF that, of now ds] status_rank_step [OF that, of now ds]
    by (simp add: cleans_def)
  have c: "q = matched_poops t now ds ! k
        \<and> status_rank (status (active_poops t ! k)) \<le> status_rank (status q)"
    if "tracker_ok t" "k < length (active_poops t)"
       "q \<in> set (active_poops (fst (update t now ds ls)))"
       "poop_id q = poop_id (active_poops t ! k)"
    using survivor_is_matched [OF that(1) that(3) that(2) that(4)]
      status_rank_step [OF that(2), of now ds] by simp
  have d: "tracker_ok (run (init_tracker iou stale confirm cb) frames)"
    by (rule tracker_ok_run [OF tracker_ok_init])
  from a c d update_active_poops [of t now ds ls] show ?thesis by blast
qed

theorem pending_to_cleaned_counterexample:
  "map status (active_poops (run (init_tracker (3 / 10) 30 1 True) [(0, [], [(50, 50)])]))
     = [Pending]
   \<and> map status (matched_poops (run (init_tracker (3 / 10) 30 1 True) [(0, [], [(50, 50)])]) 1
        [create_person_detection 10 0 80 100]) = [Cleaned]
   \<and> snd (update (run (init_tracker (3 / 10) 30 1 True) [(0, [], [(50, 50)])]) 1
        [create_person_detection 10 0 80 100] []) = [PoopCleaned 0 (50, 50)]
   \<and> cleaned_count (fst (update (run (init_tracker (3 / 10) 30 1 True) [(0, [], [(50, 50)])]) 1
        [create_person_detection 10 0 80 100] [])) = 1"
  by (simp add: eval_simps matched_poops_def)

theorem status_transitions_witness:
  "0 < length (active_poops one_poop) \<and> tracker_ok one_poop
   \<and> \<lparr>poop_id = 0, location = (116, 116), poop_bbox = (101, 101, 131, 131), first_seen = 0,
       last_seen = 1, status = Active, deposited_by = None, missing_frames = 0,
       cleanup_candidate_frames = 0\<rparr>
       \<in> set (active_poops (fst (update one_poop 1 [create_poop_detection 116 116 30] [])))
   \<and> poop_id (active_poops one_poop ! 0) = 0
   \<and> matched_poops one_poop 1 [create_poop_detection 116 116 30] ! 0 =
       \<lparr>poop_id = 0, location = (116, 116), poop_bbox = (101, 101, 131, 131), first_seen = 0,
        last_seen = 1, status = Active, deposited_by = None, missing_frames = 0,
        cleanup_candidate_frames = 0\<rparr>
   \<and> status (active_poops one_poop ! 0) = Active"
  using status_transitions [of 0 one_poop 1 "[create_poop_detection 116 116 30]" "[]"
      "\<lparr>poop_id = 0, location = (116, 116), poop_bbox = (101, 101, 131, 131), first_seen = 0,
       last_seen = 1, status = Active, deposited_by = None, missing_frames = 0,
       cleanup_candidate_frames = 0\<rparr>" 0 0 0 True "[]"]
  by (simp add: one_poop_eq eval_simps matched_poops_def tracker_ok_def pruned_def
      created_poops_def created_pendings_def)

subsection \<open>Pending deposits and the empty box\<close>

lemma claim_of_zero_box:
  "poop_bbox (active_poops t ! k) = (0, 0, 0, 0) \<Longrightarrow> claim_of t ds k = None"
  by (simp add: claim_of_def find_best_detection_zero_box)

lemma zero_box_step:
  assumes k: "k < length (active_poops t)"
    and z: "poop_bbox (active_poops t ! k) = (0, 0, 0, 0)"
  shows "claim_of t ds k = None
    \<and> poop_bbox (matched_poops t now ds ! k) = (0, 0, 0, 0)
    \<and> (status (active_poops t ! k) = Pending \<longrightarrow> status (matched_poops t now ds ! k) \<noteq> Active)"
  using claim_of_zero_box [OF z, of ds] z
  by (simp add: matched_poops_nth [OF k] on_miss_fst)

lemma matched_pending_zero:
  assumes inv: "pending_unseen t"
    and q: "q \<in> set (matched_poops t now ds)" and st: "status q = Pending"
  shows "poop_bbox q = (0, 0, 0, 0)"
proof -
  from q obtain k where k: "k < length (active_poops t)" and qk: "q = matched_poops t now ds ! k"
    by (auto simp: in_set_conv_nth)
  let ?p = "active_poops t ! k"
  have mem: "?p \<in> set (active_poops t)" using k by simp
  show ?thesis
  proof (cases "claim_of t ds k")
    case None
    then have q': "q = fst (on_miss t (person_detections ds) ?p)"
      by (simp add: qk matched_poops_nth [OF k])
    with st have "status ?p = Pending" by (simp add: on_miss_fst split: if_splits)
    with inv mem have "poop_bbox ?p = (0, 0, 0, 0)" by (simp add: pending_unseen_def)
    then show ?thesis by (simp add: q' on_miss_fst)
  next
    case (Some r)
    obtain idx d where r: "r = (idx, d)" by (cases r)
    have "q = fst (on_match t now d ?p)"
      by (simp add: qk matched_poops_nth [OF k] Some r)
    with st show ?thesis by (simp add: on_match_fst split: if_splits)
  qed
qed

lemma created_pendings_zero:
  "p \<in> set (created_pendings t now ds ls) \<Longrightarrow> poop_bbox p = (0, 0, 0, 0) \<and> status p = Pending"
  by (auto simp: created_pendings_def pending_loop_eq pending_poop_def)

lemma created_poops_active:
  "p \<in> set (created_poops t now ds) \<Longrightarrow> status p = Active"
  by (auto simp: created_poops_eq detected_poop_def)

lemma pending_unseen_update:
  assumes "pending_unseen t"
  shows "pending_unseen (fst (update t now ds ls))"
  unfolding pending_unseen_def update_active_poops
  using matched_pending_zero [OF assms] created_pendings_zero created_poops_active
  by fastforce

lemma pending_unseen_init: "pending_unseen (init_tracker iou stale confirm cb)"
  by (simp add: pending_unseen_def init_tracker_def)

lemma pending_unseen_run: "pending_unseen t \<Longrightarrow> pending_unseen (run t frames)"
  by (induction t frames rule: run.induct) (simp_all add: pending_unseen_update)

lemma match_loop_not_confirmed:
  assumes "\<forall>p \<in> set ps. status p = Pending \<longrightarrow> poop_bbox p = (0, 0, 0, 0)"
  shows "filter is_confirmed_event (snd (snd (snd (match_loop t now pds pers ps m)))) = []"
  using assms
proof (induction ps arbitrary: m)
  case Nil
  then show ?case by simp
next
  case (Cons p ps)
  then have ps: "\<forall>q \<in> set ps. status q = Pending \<longrightarrow> poop_bbox q = (0, 0, 0, 0)"
    and p: "status p = Pending \<longrightarrow> poop_bbox p = (0, 0, 0, 0)" by simp_all
  show ?case
  proof (cases "find_best_detection t p pds m")
    case None
    then show ?thesis
      unfolding match_loop_Cons_events by (simp add: Cons.IH [OF ps] on_miss_events)
  next
    case (Some r)
    obtain idx d where r: "r = (idx, d)" by (cases r)
    from Some p have "status p \<noteq> Pending"
      using find_best_detection_zero_box [of p t pds m] by auto
    then show ?thesis
      unfolding match_loop_Cons_events by (simp add: Some r Cons.IH [OF ps] on_match_snd)
  qed
qed

lemma update_not_confirmed:
  assumes "pending_unseen t"
  shows "filter is_confirmed_event (snd (update t now ds ls)) = []"
  using match_loop_not_confirmed [of "active_poops t" t now "poop_detections ds"
      "person_detections ds" "{}"] assms
  by (auto simp: update_snd pending_unseen_def filter_empty_conv)

lemma run_events_not_confirmed:
  "pending_unseen t \<Longrightarrow> filter is_confirmed_event (run_events t frames) = []"
  by (induction t frames rule: run_events.induct)
    (simp_all add: update_not_confirmed pending_unseen_update)

text \<open>
  C3: a deposit created from a pooping event has the box \<open>(0, 0, 0, 0)\<close> and status pending;
  the IoU of that box with any box is 0 (so also with every box that has \<open>x1 > 0\<close> and
  \<open>y1 > 0\<close>); a deposit with that box obtains no detection in the matching loop, whatever
  the threshold, keeps the box, and if pending is not promoted. Hence in every tracker
  reached from the empty one each pending deposit has that box, and no run ever makes a
  \<open>poop_confirmed\<close> call.
\<close>

theorem pending_never_confirmed:
  "poop_bbox (pending_poop uuid now l) = (0, 0, 0, 0) \<and> status (pending_poop uuid now l) = Pending
   \<and> (\<forall>p \<in> set (created_pendings t now ds ls). poop_bbox p = (0, 0, 0, 0) \<and> status p = Pending)
   \<and> calculate_iou (0, 0, 0, 0) b = 0
   \<and> (k < length (active_poops t) \<and> poop_bbox (active_poops t ! k) = (0, 0, 0, 0) \<longrightarrow>
        claim_of t ds k = None
        \<and> poop_bbox (matched_poops t now ds ! k) = (0, 0, 0, 0)
        \<and> (status (active_poops t ! k) = Pending \<longrightarrow>
             status (matched_poops t now ds ! k) \<noteq> Active))
   \<and> (\<forall>p \<in> set (active_poops (run (init_tracker iou stale confirm cb) frames)).
         status p = Pending \<longrightarrow> poop_bbox p = (0, 0, 0, 0))
   \<and> filter is_confirmed_event (run_events (init_tracker iou stale confirm cb) frames) = []"
proof -
  have a: "poop_bbox (pending_poop uuid now l) = (0, 0, 0, 0) \<and> status (pending_poop uuid now l) = Pending"
    by (simp add: pending_poop_def)
  have b: "\<forall>p \<in> set (created_pendings t now ds ls). poop_bbox p = (0, 0, 0, 0) \<and> status p = Pending"
    using created_pendings_zero by blast
  have c: "\<forall>p \<in> set (active_poops (run (init_tracker iou stale confirm cb) frames)).
         status p = Pending \<longrightarrow> poop_bbox p = (0, 0, 0, 0)"
    using pending_unseen_run [OF pending_unseen_init, of iou stale confirm cb frames]
    by (simp add: pending_unseen_def)
  have d: "filter is_confirmed_event (run_events (init_tracker iou stale confirm cb) frames) = []"
    by (rule run_events_not_confirmed [OF pending_unseen_init])
  from a b c d iou_zero_box [of b] zero_box_step [of k t ds now] show ?thesis by blast
qed

lemma pending_one_eq:
  "pending_one = \<lparr>iou_threshold = 3 / 10, stale_threshold = 30, cleanup_confirm_frames = 2,
      event_callback = True,
      active_poops = [\<lparr>poop_id = 0, location = (50, 50), poop_bbox = (0, 0, 0, 0),
                        first_seen = 0, last_seen = 0, status = Pending, deposited_by = None,
                        missing_frames = 0, cleanup_candidate_frames = 0\<rparr>],
      cleaned_count = 0, total_deposits = 0, uuid_counter = 1\<rparr>"
  by (simp add: pending_one_def eval_simps)

theorem pending_never_confirmed_witness:
  "0 < length (active_poops pending_one)
   \<and> poop_bbox (active_poops pending_one ! 0) = (0, 0, 0, 0)
   \<and> status (active_poops pending_one ! 0) = Pending
   \<and> bbox (create_poop_detection 50 50 30) = (35, 35, 65, 65)
   \<and> calculate_iou (0, 0, 0, 0) (35, 35, 65, 65) = 0
   \<and> claim_of pending_one [create_poop_detection 50 50 30] 0 = None
   \<and> status (matched_poops pending_one 1 [create_poop_detection 50 50 30] ! 0) \<noteq> Active
   \<and> map status (created_pendings pending_one 1 [create_poop_detection 50 50 30] [(7, 9)])
       = [Pending]
   \<and> map poop_bbox (created_pendings pending_one 1 [create_poop_detection 50 50 30] [(7, 9)])
       = [(0, 0, 0, 0)]
   \<and> map status (active_poops (run (init_tracker (3 / 10) 30 2 True)
         [(0, [], [(50, 50)]), (1, [create_poop_detection 50 50 30], [])]))
       = [Pending, Active]
   \<and> map poop_bbox (active_poops (run (init_tracker (3 / 10) 30 2 True)
         [(0, [], [(50, 50)]), (1, [create_poop_detection 50 50 30], [])]))
       = [(0, 0, 0, 0), (35, 35, 65, 65)]
   \<and> filter is_confirmed_event (run_events (init_tracker (3 / 10) 30 2 True)
         [(0, [], [(50, 50)]), (1, [create_poop_detection 50 50 30], [])]) = []"
proof -
  have h: "0 < length (active_poops pending_one)
      \<and> poop_bbox (active_poops pending_one ! 0) = (0, 0, 0, 0)
      \<and> status (active_poops pending_one ! 0) = Pending"
    by (simp add: pending_one_eq)
  have b: "bbox (create_poop_detection 50 50 30) = (35, 35, 65, 65)"
    by (simp add: create_poop_detection_def)
  have p: "map status (created_pendings pending_one 1 [create_poop_detection 50 50 30] [(7, 9)])
       = [Pending]
     \<and> map poop_bbox (created_pendings pending_one 1 [create_poop_detection 50 50 30] [(7, 9)])
       = [(0, 0, 0, 0)]"
    by (simp add: pending_one_eq eval_simps created_pendings_def created_poops_def)
  have r: "map status (active_poops (run (init_tracker (3 / 10) 30 2 True)
         [(0, [], [(50, 50)]), (1, [create_poop_detection 50 50 30], [])]))
       = [Pending, Active]
     \<and> map poop_bbox (active_poops (run (init_tracker (3 / 10) 30 2 True)
         [(0, [], [(50, 50)]), (1, [create_poop_detection 50 50 30], [])]))
       = [(0, 0, 0, 0), (35, 35, 65, 65)]"
    by (simp add: eval_simps)
  from h b p r
    pending_never_confirmed [where t = pending_one and k = 0 and now = 1
      and ds = "[create_poop_detection 50 50 30]" and ls = "[(7, 9)]"
      and b = "(35, 35, 65, 65)" and iou = "3 / 10" and stale = 30 and confirm = 2 and cb = True
      and frames = "[(0, [], [(50, 50)]), (1, [create_poop_detection 50 50 30], [])]"]
  show ?thesis by blast
qed

subsection \<open>Promotion on a match\<close>

lemma best_detection_loop_max:
  assumes "best_detection_loop thr pb m xs bi best = Some r"
    and "\<forall>b. best = Some b \<longrightarrow> calculate_iou pb (bbox (snd b)) = bi \<and> bi > thr"
  shows "bi \<le> calculate_iou pb (bbox (snd r))
     \<and> (\<forall>(j, e) \<in> set xs. j \<notin> m \<longrightarrow> calculate_iou pb (bbox e) \<le> calculate_iou pb (bbox (snd r)))"
  using assms
proof (induction xs arbitrary: bi best)
  case Nil
  then show ?case by auto
next
  case (Cons x xs)
  obtain i d where x: "x = (i, d)" by (cases x)
  let ?v = "calculate_iou pb (bbox d)"
  show ?case
  proof (cases "i \<notin> m \<and> ?v > bi \<and> ?v > thr")
    case True
    then have "best_detection_loop thr pb m xs ?v (Some (i, d)) = Some r"
      using Cons.prems(1) by (auto simp: x Let_def)
    from Cons.IH [OF this] True show ?thesis by (auto simp: x)
  next
    case False
    then have "best_detection_loop thr pb m (x # xs) bi best = best_detection_loop thr pb m xs bi best"
      by (auto simp: x Let_def)
    then have res: "best_detection_loop thr pb m xs bi best = Some r"
      using Cons.prems(1) by simp
    from Cons.IH [OF res Cons.prems(2)]
    have ih: "bi \<le> calculate_iou pb (bbox (snd r))"
      "\<forall>(j, e) \<in> set xs. j \<notin> m \<longrightarrow> calculate_iou pb (bbox e) \<le> calculate_iou pb (bbox (snd r))"
      by auto
    have thr: "thr < calculate_iou pb (bbox (snd r))"
    proof (cases "best = Some r")
      case True
      with Cons.prems(2) have "calculate_iou pb (bbox (snd r)) = bi \<and> bi > thr" by blast
      then show ?thesis by simp
    next
      case False
      with best_detection_loop_Some [OF res] show ?thesis by simp
    qed
    have "i \<notin> m \<longrightarrow> ?v \<le> calculate_iou pb (bbox (snd r))"
      using False ih(1) thr by auto
    with ih show ?thesis by (auto simp: x)
  qed
qed

lemma find_best_detection_max:
  assumes "find_best_detection t p pds m = Some (i, d)"
  shows "\<forall>j < length pds. j \<notin> m \<longrightarrow>
           calculate_iou (poop_bbox p) (bbox (pds ! j)) \<le> calculate_iou (poop_bbox p) (bbox d)"
  using best_detection_loop_max [OF assms [unfolded find_best_detection_def]]
  by (auto simp: in_set_enumerate_eq)

lemma match_loop_confirmed_events:
  assumes "event_callback t"
  shows "filter is_confirmed_event (snd (snd (snd (match_loop t now pds pers ps m)))) =
     map (\<lambda>(p, p'). PoopConfirmed (poop_id p') (location p'))
       (filter (\<lambda>(p, p'). status p = Pending \<and> status p' = Active)
          (zip ps (fst (match_loop t now pds pers ps m))))"
proof (induction ps arbitrary: m)
  case Nil
  then show ?case by simp
next
  case (Cons p ps)
  show ?case
  proof (cases "find_best_detection t p pds m")
    case None
    then show ?thesis
      unfolding match_loop_Cons_events match_loop_Cons_fst
      by (simp add: Cons.IH on_miss_events on_miss_fst)
  next
    case (Some r)
    obtain idx d where r: "r = (idx, d)" by (cases r)
    show ?thesis
      unfolding match_loop_Cons_events match_loop_Cons_fst
      using assms by (simp add: Some r Cons.IH on_match_snd on_match_fst)
  qed
qed

lemma update_confirmed_events:
  assumes "event_callback t"
  shows "filter is_confirmed_event (snd (update t now ds ls)) =
     map (\<lambda>(p, p'). PoopConfirmed (poop_id p') (location p'))
       (filter (\<lambda>(p, p'). status p = Pending \<and> status p' = Active)
          (zip (active_poops t) (matched_poops t now ds)))"
proof -
  have "filter is_confirmed_event
          (map (\<lambda>p. PoopDetected (poop_id p) (location p) (poop_bbox p)) xs) = []" for xs
    by (induction xs) simp_all
  then show ?thesis
    using match_loop_confirmed_events [OF assms]
    by (simp add: update_snd matched_poops_def)
qed

text \<open>
  C5: with a threshold that is not negative, a pending deposit becomes active in an
  \<open>update\<close> exactly when some detection not yet claimed when the loop reaches the deposit
  has IoU above the threshold with the deposit's box, which is exactly when the deposit
  obtains a detection. The detection obtained is unclaimed, above the threshold and of
  highest IoU among the unclaimed; the deposit then has that detection's box and center,
  \<open>last_seen\<close> set to the time of the call, both counters 0 and status active. With a
  callback registered the \<open>poop_confirmed\<close> calls of the update are one per deposit that
  went from pending to active, with its id and new location.
\<close>

theorem promotion:
  assumes "k < length (active_poops t)"
    and "status (active_poops t ! k) = Pending"
    and "0 \<le> iou_threshold t"
  shows
   "(status (matched_poops t now ds ! k) = Active \<longleftrightarrow>
       (\<exists>i < length (poop_detections ds).
          i \<notin> claimed_before t (poop_detections ds) (active_poops t) {} k
          \<and> calculate_iou (poop_bbox (active_poops t ! k)) (bbox (poop_detections ds ! i))
              > iou_threshold t))
    \<and> (status (matched_poops t now ds ! k) = Active \<longleftrightarrow> claim_of t ds k \<noteq> None)
    \<and> (\<forall>i d. claim_of t ds k = Some (i, d) \<longrightarrow>
          i < length (poop_detections ds) \<and> d = poop_detections ds ! i
          \<and> i \<notin> claimed_before t (poop_detections ds) (active_poops t) {} k
          \<and> calculate_iou (poop_bbox (active_poops t ! k)) (bbox d) > iou_threshold t
          \<and> (\<forall>j < length (poop_detections ds).
                j \<notin> claimed_before t (poop_detections ds) (active_poops t) {} k \<longrightarrow>
                calculate_iou (poop_bbox (active_poops t ! k)) (bbox (poop_detections ds ! j))
                  \<le> calculate_iou (poop_bbox (active_poops t ! k)) (bbox d))
          \<and> matched_poops t now ds ! k =
              (active_poops t ! k)\<lparr>poop_bbox := bbox d, location := center d, last_seen := now,
                missing_frames := 0, cleanup_candidate_frames := 0, status := Active\<rparr>)
    \<and> (event_callback t \<longrightarrow>
         filter is_confirmed_event (snd (update t now ds ls)) =
           map (\<lambda>(p, p'). PoopConfirmed (poop_id p') (location p'))
             (filter (\<lambda>(p, p'). status p = Pending \<and> status p' = Active)
                (zip (active_poops t) (matched_poops t now ds))))"
proof -
  let ?p = "active_poops t ! k"
  let ?pds = "poop_detections ds"
  let ?m = "claimed_before t ?pds (active_poops t) {} k"
  have b: "status (matched_poops t now ds ! k) = Active \<longleftrightarrow> claim_of t ds k \<noteq> None"
  proof (cases "claim_of t ds k")
    case None
    then show ?thesis using assms(2)
      by (simp add: matched_poops_nth [OF assms(1)] on_miss_fst)
  next
    case (Some r)
    obtain idx d where r: "r = (idx, d)" by (cases r)
    show ?thesis using assms(2)
      by (simp add: matched_poops_nth [OF assms(1)] Some r on_match_fst)
  qed
  have "claim_of t ds k = None \<longleftrightarrow>
      (\<forall>i < length ?pds. i \<in> ?m \<or> \<not> (calculate_iou (poop_bbox ?p) (bbox (?pds ! i)) > iou_threshold t))"
    unfolding claim_of_def find_best_detection_None_iff using assms(3) by force
  with b have a: "status (matched_poops t now ds ! k) = Active \<longleftrightarrow>
       (\<exists>i < length ?pds. i \<notin> ?m
          \<and> calculate_iou (poop_bbox ?p) (bbox (?pds ! i)) > iou_threshold t)"
    by auto
  have c: "i < length ?pds \<and> d = ?pds ! i \<and> i \<notin> ?m
          \<and> calculate_iou (poop_bbox ?p) (bbox d) > iou_threshold t
          \<and> (\<forall>j < length ?pds. j \<notin> ?m \<longrightarrow>
                calculate_iou (poop_bbox ?p) (bbox (?pds ! j)) \<le> calculate_iou (poop_bbox ?p) (bbox d))
          \<and> matched_poops t now ds ! k =
              ?p\<lparr>poop_bbox := bbox d, location := center d, last_seen := now,
                missing_frames := 0, cleanup_candidate_frames := 0, status := Active\<rparr>"
    if "claim_of t ds k = Some (i, d)" for i d
    using find_best_detection_Some [OF that [unfolded claim_of_def]]
      find_best_detection_max [OF that [unfolded claim_of_def]] that assms(2)
    by (auto simp: matched_poops_nth [OF assms(1)] on_match_fst)
  from a b c update_confirmed_events show ?thesis by blast
qed

lemma pending_seen_eq:
  "pending_seen = \<lparr>iou_threshold = 3 / 10, stale_threshold = 30, cleanup_confirm_frames = 2,
      event_callback = True,
      active_poops = [\<lparr>poop_id = 0, location = (115, 115), poop_bbox = (100, 100, 130, 130),
                        first_seen = 0, last_seen = 0, status = Pending, deposited_by = None,
                        missing_frames = 0, cleanup_candidate_frames = 0\<rparr>],
      cleaned_count = 0, total_deposits = 0, uuid_counter = 1\<rparr>"
  by (simp add: pending_seen_def eval_simps)

theorem promotion_witness:
  "0 < length (active_poops pending_seen)
   \<and> status (active_poops pending_seen ! 0) = Pending
   \<and> 0 \<le> iou_threshold pending_seen
   \<and> event_callback pending_seen
   \<and> calculate_iou (poop_bbox (active_poops pending_seen ! 0))
        (bbox (poop_detections [create_poop_detection 116 116 30] ! 0))
       > iou_threshold pending_seen
   \<and> status (matched_poops pending_seen 1 [create_poop_detection 116 116 30] ! 0) = Active
   \<and> filter is_confirmed_event (snd (update pending_seen 1 [create_poop_detection 116 116 30] []))
       = [PoopConfirmed 0 (116, 116)]"
proof -
  have h: "0 < length (active_poops pending_seen)"
    "status (active_poops pending_seen ! 0) = Pending"
    "0 \<le> iou_threshold pending_seen"
    by (simp_all add: pending_seen_eq)
  have cb: "event_callback pending_seen" by (simp add: pending_seen_eq)
  have r: "0 < length (poop_detections [create_poop_detection 116 116 30])
      \<and> 0 \<notin> claimed_before pending_seen (poop_detections [create_poop_detection 116 116 30])
               (active_poops pending_seen) {} 0
      \<and> calculate_iou (poop_bbox (active_poops pending_seen ! 0))
           (bbox (poop_detections [create_poop_detection 116 116 30] ! 0))
          > iou_threshold pending_seen"
    by (simp add: pending_seen_eq eval_simps)
  note th = promotion [OF h, of 1 "[create_poop_detection 116 116 30]" "[]"]
  from th r have a: "status (matched_poops pending_seen 1 [create_poop_detection 116 116 30] ! 0) = Active"
    by blast
  have e: "map (\<lambda>(p, p'). PoopConfirmed (poop_id p') (location p'))
             (filter (\<lambda>(p, p'). status p = Pending \<and> status p' = Active)
                (zip (active_poops pending_seen)
                   (matched_poops pending_seen 1 [create_poop_detection 116 116 30])))
           = [PoopConfirmed 0 (116, 116)]"
    by (simp add: pending_seen_eq eval_simps matched_poops_def)
  from th cb e have "filter is_confirmed_event
        (snd (update pending_seen 1 [create_poop_detection 116 116 30] []))
       = [PoopConfirmed 0 (116, 116)]"
    by simp
  with h cb r a show ?thesis by simp
qed

subsection \<open>The cleanup streak\<close>

lemma is_human_nearby_iff:
  "is_human_nearby p pers thr \<longleftrightarrow>
     (\<exists>d \<in> set pers. distance (location p) (center d) < thr)"
proof (induction pers)
  case Nil
  then show ?case by simp
next
  case (Cons d pers)
  obtain px py where l: "location p = (px, py)" by (cases "location p")
  obtain cx cy where c: "center d = (cx, cy)" by (cases "center d")
  have "(px - cx)\<^sup>2 = (cx - px)\<^sup>2" "(py - cy)\<^sup>2 = (cy - py)\<^sup>2"
    by (simp_all add: power2_commute)
  then show ?case using Cons.IH by (simp add: l c Let_def)
qed

lemma miss_step:
  assumes k: "k < length (active_poops t)" and c: "claim_of t ds k = None"
  shows "matched_poops t now ds ! k =
     (active_poops t ! k)\<lparr>missing_frames := missing_frames (active_poops t ! k) + 1,
       cleanup_candidate_frames :=
         (if is_human_nearby (active_poops t ! k) (person_detections ds) 100
          then cleanup_candidate_frames (active_poops t ! k) + 1 else 0),
       status := (if cleans t (person_detections ds) (active_poops t ! k) then Cleaned
                  else status (active_poops t ! k))\<rparr>"
  by (simp add: matched_poops_nth [OF k] c on_miss_fst)

lemma matched_streak_below:
  assumes pos: "0 < cleanup_confirm_frames t" and inv: "streak_below t"
    and q: "q \<in> set (matched_poops t now ds)" and st: "status q \<noteq> Cleaned"
  shows "cleanup_candidate_frames q < cleanup_confirm_frames t"
proof -
  from q obtain k where k: "k < length (active_poops t)" and qk: "q = matched_poops t now ds ! k"
    by (auto simp: in_set_conv_nth)
  show ?thesis
  proof (cases "claim_of t ds k")
    case None
    from st have "\<not> cleans t (person_detections ds) (active_poops t ! k)"
      by (auto simp: qk miss_step [OF k None] split: if_splits)
    then show ?thesis using pos
      by (auto simp: qk miss_step [OF k None] cleans_def)
  next
    case (Some r)
    obtain idx d where r: "r = (idx, d)" by (cases r)
    show ?thesis using pos
      by (simp add: qk matched_poops_nth [OF k] Some r on_match_fst)
  qed
qed

lemma streak_below_update:
  assumes "0 < cleanup_confirm_frames t" and "streak_below t"
  shows "streak_below (fst (update t now ds ls))"
proof -
  have "cleanup_candidate_frames q < cleanup_confirm_frames t"
    if "q \<in> set (active_poops (fst (update t now ds ls)))" for q
  proof -
    from that have np: "\<not> pruned t q"
      and mem: "q \<in> set (matched_poops t now ds) \<or> q \<in> set (created_poops t now ds)
               \<or> q \<in> set (created_pendings t now ds ls)"
      by (auto simp: update_active_poops)
    from mem show ?thesis
    proof (elim disjE)
      assume "q \<in> set (matched_poops t now ds)"
      with np show ?thesis
        using matched_streak_below [OF assms] by (auto simp: pruned_def)
    next
      assume "q \<in> set (created_poops t now ds)"
      then show ?thesis using assms(1) by (auto simp: created_poops_eq detected_poop_def)
    next
      assume "q \<in> set (created_pendings t now ds ls)"
      then show ?thesis using assms(1)
        by (auto simp: created_pendings_def pending_loop_eq pending_poop_def)
    qed
  qed
  then show ?thesis by (simp add: streak_below_def)
qed

lemma streak_below_init: "streak_below (init_tracker iou stale confirm cb)"
  by (simp add: streak_below_def init_tracker_def)

lemma streak_below_run:
  "0 < cleanup_confirm_frames t \<Longrightarrow> streak_below t \<Longrightarrow> streak_below (run t frames)"
  by (induction t frames rule: run.induct) (simp_all add: streak_below_update)

lemma match_loop_cleaned_events:
  assumes "\<forall>p \<in> set ps. status p \<noteq> Cleaned" and "event_callback t"
  shows "filter is_cleaned_event (snd (snd (snd (match_loop t now pds pers ps m)))) =
         map (\<lambda>q. PoopCleaned (poop_id q) (location q))
           (filter (\<lambda>q. status q = Cleaned) (fst (match_loop t now pds pers ps m)))"
  using assms(1)
proof (induction ps arbitrary: m)
  case Nil
  then show ?case by simp
next
  case (Cons p ps)
  then have p: "status p \<noteq> Cleaned" and ps: "\<forall>q \<in> set ps. status q \<noteq> Cleaned" by simp_all
  show ?case
    unfolding match_loop_Cons_events match_loop_Cons_fst
    using p assms(2)
    by (simp add: Cons.IH [OF ps] on_match_snd on_miss_events on_match_status_cleaned
        on_miss_status_cleaned on_miss_fst split: option.splits)
qed

lemma update_cleaned_events:
  assumes "\<forall>p \<in> set (active_poops t). status p \<noteq> Cleaned" and "event_callback t"
  shows "filter is_cleaned_event (snd (update t now ds ls)) =
         map (\<lambda>q. PoopCleaned (poop_id q) (location q))
           (filter (\<lambda>q. status q = Cleaned) (matched_poops t now ds))"
proof -
  have "filter is_cleaned_event
          (map (\<lambda>p. PoopDetected (poop_id p) (location p) (poop_bbox p)) xs) = []" for xs
    by (induction xs) simp_all
  then show ?thesis
    using match_loop_cleaned_events [OF assms]
    by (simp add: update_snd matched_poops_def)
qed

lemma match_loop_cleaned_source:
  "i \<in> set (cleaned_ids (snd (snd (snd (match_loop t now pds pers ps m))))) \<Longrightarrow>
     \<exists>k < length ps. poop_id (ps ! k) = i
        \<and> find_best_detection t (ps ! k) pds (claimed_before t pds ps m k) = None
        \<and> cleans t pers (ps ! k)"
proof (induction ps arbitrary: m)
  case Nil
  then show ?case by simp
next
  case (Cons p ps)
  show ?case
  proof (cases "find_best_detection t p pds m")
    case None
    from Cons.prems consider
        (here) "i \<in> set (cleaned_ids (snd (snd (on_miss t pers p))))"
      | (later) "i \<in> set (cleaned_ids (snd (snd (snd (match_loop t now pds pers ps m)))))"
      unfolding match_loop_Cons_events by (auto simp: None)
    then show ?thesis
    proof cases
      case here
      then have "cleans t pers p" "i = poop_id p"
        by (auto simp: on_miss_events split: if_splits)
      with None have "poop_id ((p # ps) ! 0) = i
          \<and> find_best_detection t ((p # ps) ! 0) pds (claimed_before t pds (p # ps) m 0) = None
          \<and> cleans t pers ((p # ps) ! 0)" by simp
      then show ?thesis by blast
    next
      case later
      from Cons.IH [OF this] obtain k where "k < length ps" "poop_id (ps ! k) = i"
        "find_best_detection t (ps ! k) pds (claimed_before t pds ps m k) = None"
        "cleans t pers (ps ! k)" by blast
      with None have "Suc k < length (p # ps) \<and> poop_id ((p # ps) ! Suc k) = i
          \<and> find_best_detection t ((p # ps) ! Suc k) pds (claimed_before t pds (p # ps) m (Suc k)) = None
          \<and> cleans t pers ((p # ps) ! Suc k)" by simp
      then show ?thesis by blast
    qed
  next
    case (Some r)
    obtain idx d where r: "r = (idx, d)" by (cases r)
    from Cons.prems
    have "i \<in> set (cleaned_ids (snd (snd (snd (match_loop t now pds pers ps (insert idx m))))))"
      unfolding match_loop_Cons_events by (auto simp: Some r on_match_snd split: if_splits)
    from Cons.IH [OF this] obtain k where "k < length ps" "poop_id (ps ! k) = i"
      "find_best_detection t (ps ! k) pds (claimed_before t pds ps (insert idx m) k) = None"
      "cleans t pers (ps ! k)" by blast
    with Some r have "Suc k < length (p # ps) \<and> poop_id ((p # ps) ! Suc k) = i
        \<and> find_best_detection t ((p # ps) ! Suc k) pds (claimed_before t pds (p # ps) m (Suc k)) = None
        \<and> cleans t pers ((p # ps) ! Suc k)" by simp
    then show ?thesis by blast
  qed
qed

lemma update_cleaned_source:
  assumes "i \<in> set (cleaned_ids (snd (update t now ds ls)))"
  shows "\<exists>k < length (active_poops t). poop_id (active_poops t ! k) = i
        \<and> claim_of t ds k = None
        \<and> cleans t (person_detections ds) (active_poops t ! k)"
proof -
  from assms have "i \<in> set (cleaned_ids (snd (snd (snd (match_loop t now (poop_detections ds)
      (person_detections ds) (active_poops t) {})))))"
    by (auto simp: update_snd split: if_splits)
  from match_loop_cleaned_source [OF this] show ?thesis by (simp add: claim_of_def)
qed

lemma streak_step:
  assumes q: "q \<in> set (active_poops (fst (update t now ds ls)))"
    and c: "0 < cleanup_candidate_frames q"
  shows "\<exists>k < length (active_poops t).
           poop_id (active_poops t ! k) = poop_id q \<and> claim_of t ds k = None
           \<and> is_human_nearby (active_poops t ! k) (person_detections ds) 100
           \<and> cleanup_candidate_frames (active_poops t ! k) = cleanup_candidate_frames q - 1"
proof -
  from q have "q \<in> set (matched_poops t now ds) \<or> q \<in> set (created_poops t now ds)
               \<or> q \<in> set (created_pendings t now ds ls)"
    by (auto simp: update_active_poops)
  moreover have "q \<notin> set (created_poops t now ds)"
    using c by (auto simp: created_poops_eq detected_poop_def)
  moreover have "q \<notin> set (created_pendings t now ds ls)"
    using c by (auto simp: created_pendings_def pending_loop_eq pending_poop_def)
  ultimately have "q \<in> set (matched_poops t now ds)" by blast
  then obtain k where k: "k < length (active_poops t)" and qk: "q = matched_poops t now ds ! k"
    by (auto simp: in_set_conv_nth)
  show ?thesis
  proof (cases "claim_of t ds k")
    case None
    from c have "is_human_nearby (active_poops t ! k) (person_detections ds) 100"
      by (auto simp: qk miss_step [OF k None] split: if_splits)
    then have "poop_id (active_poops t ! k) = poop_id q
        \<and> is_human_nearby (active_poops t ! k) (person_detections ds) 100
        \<and> cleanup_candidate_frames (active_poops t ! k) = cleanup_candidate_frames q - 1"
      by (simp add: qk miss_step [OF k None])
    with k None show ?thesis by blast
  next
    case (Some r)
    obtain idx d where r: "r = (idx, d)" by (cases r)
    from c show ?thesis
      by (simp add: qk matched_poops_nth [OF k] Some r on_match_fst)
  qed
qed

lemma streak_history:
  assumes t0: "\<forall>p \<in> set (active_poops t0). cleanup_candidate_frames p \<le> 0"
  shows "\<forall>q \<in> set (active_poops (run t0 frames)).
           nat (cleanup_candidate_frames q) \<le> length frames
           \<and> (\<forall>c \<in> set (drop (length frames - nat (cleanup_candidate_frames q)) (cycles t0 frames)).
                 streak_cycle (poop_id q) c)"
proof (induction frames rule: rev_induct)
  case Nil
  then show ?case using t0 by simp
next
  case (snoc f frames)
  obtain now ds ls where f: "f = (now, ds, ls)" by (cases f)
  let ?t = "run t0 frames"
  show ?case
  proof
    fix q
    assume q: "q \<in> set (active_poops (run t0 (frames @ [f])))"
    then have q': "q \<in> set (active_poops (fst (update ?t now ds ls)))"
      by (simp add: f run_snoc)
    show "nat (cleanup_candidate_frames q) \<le> length (frames @ [f])
           \<and> (\<forall>c \<in> set (drop (length (frames @ [f]) - nat (cleanup_candidate_frames q))
                           (cycles t0 (frames @ [f]))).
                 streak_cycle (poop_id q) c)"
    proof (cases "0 < cleanup_candidate_frames q")
      case False
      then have "nat (cleanup_candidate_frames q) = 0" by simp
      then show ?thesis by simp
    next
      case True
      from streak_step [OF q' True] obtain k where k: "k < length (active_poops ?t)"
        and id: "poop_id (active_poops ?t ! k) = poop_id q"
        and cl: "claim_of ?t ds k = None"
        and near: "is_human_nearby (active_poops ?t ! k) (person_detections ds) 100"
        and cc: "cleanup_candidate_frames (active_poops ?t ! k) = cleanup_candidate_frames q - 1"
        by blast
      let ?p = "active_poops ?t ! k"
      have "?p \<in> set (active_poops ?t)" using k by simp
      with snoc.IH have ih: "nat (cleanup_candidate_frames ?p) \<le> length frames"
        "\<forall>c \<in> set (drop (length frames - nat (cleanup_candidate_frames ?p)) (cycles t0 frames)).
            streak_cycle (poop_id ?p) c"
        by blast+
      have n: "nat (cleanup_candidate_frames q) = Suc (nat (cleanup_candidate_frames ?p))"
        using cc True by simp
      have here: "streak_cycle (poop_id q) (?t, (now, ds, ls))"
        using k id cl near by auto
      have "drop (length (frames @ [f]) - nat (cleanup_candidate_frames q)) (cycles t0 (frames @ [f]))
            = drop (length frames - nat (cleanup_candidate_frames ?p)) (cycles t0 frames)
              @ [(?t, (now, ds, ls))]"
        using ih(1) by (simp add: n f cycles_snoc)
      with ih here id n show ?thesis by auto
    qed
  qed
qed

lemma match_loop_no_callback:
  "\<not> event_callback t \<Longrightarrow> snd (snd (snd (match_loop t now pds pers ps m))) = []"
proof (induction ps arbitrary: m)
  case Nil
  then show ?case by simp
next
  case (Cons p ps)
  then show ?case
    unfolding match_loop_Cons_events
    by (simp add: on_match_snd on_miss_events split: option.splits)
qed

lemma update_no_callback: "\<not> event_callback t \<Longrightarrow> snd (update t now ds ls) = []"
  by (simp add: update_snd match_loop_no_callback)

lemma update_cleaned_ids_distinct:
  assumes "tracker_ok t"
  shows "distinct (cleaned_ids (snd (update t now ds ls)))"
proof (cases "event_callback t")
  case True
  have "distinct (map poop_id (matched_poops t now ds))"
    using assms by (simp add: matched_poops_ids tracker_ok_def)
  then have "distinct (map poop_id (filter (\<lambda>q. status q = Cleaned) (matched_poops t now ds)))"
    by (rule distinct_map_filter)
  moreover have "cleaned_ids (snd (update t now ds ls)) =
      map poop_id (filter (\<lambda>q. status q = Cleaned) (matched_poops t now ds))"
    using assms True by (intro update_cleaned_ids) (auto simp: tracker_ok_def)
  ultimately show ?thesis by simp
next
  case False
  then show ?thesis by (simp add: update_no_callback)
qed

lemma update_ids_bound:
  assumes "tracker_ok t" and "q \<in> set (active_poops (fst (update t now ds ls)))"
  shows "poop_id q \<in> poop_id ` set (active_poops t) \<or> uuid_counter t \<le> poop_id q"
proof -
  from assms(2) have "poop_id q \<in> set (map poop_id
      (matched_poops t now ds @ created_poops t now ds @ created_pendings t now ds ls))"
    by (auto simp: update_active_poops)
  then show ?thesis unfolding all_poops_ids by auto
qed

lemma uuid_counter_mono: "uuid_counter t \<le> uuid_counter (fst (update t now ds ls))"
  by (simp add: update_fst)

lemma cleaned_gone:
  assumes ok: "tracker_ok t"
    and i: "i \<in> set (cleaned_ids (snd (update t now ds ls)))"
  shows "i \<in> poop_id ` set (active_poops t)
       \<and> i \<notin> poop_id ` set (active_poops (fst (update t now ds ls)))"
proof -
  from update_cleaned_ids_subset [OF i] obtain q
    where q: "q \<in> set (matched_poops t now ds)" "status q = Cleaned" "poop_id q = i" by blast
  have "i \<in> set (map poop_id (matched_poops t now ds))" using q by force
  then have a: "i \<in> poop_id ` set (active_poops t)" by (simp add: matched_poops_ids)
  have "i \<notin> poop_id ` set (active_poops (fst (update t now ds ls)))"
  proof
    assume "i \<in> poop_id ` set (active_poops (fst (update t now ds ls)))"
    then obtain q' where q': "q' \<in> set (active_poops (fst (update t now ds ls)))" "poop_id q' = i"
      by auto
    let ?all = "matched_poops t now ds @ created_poops t now ds @ created_pendings t now ds ls"
    have inj: "inj_on poop_id (set ?all)"
      using all_poops_distinct [OF ok] by (simp only: distinct_map)
    have "q' \<in> set ?all" "\<not> pruned t q'" using q'(1) by (auto simp: update_active_poops)
    moreover have "q \<in> set ?all" using q(1) by simp
    ultimately have "q' = q" using inj q(3) q'(2) by (auto dest: inj_onD)
    with \<open>\<not> pruned t q'\<close> q(2) show False by (simp add: pruned_def)
  qed
  with a show ?thesis by simp
qed

lemma run_cleaned_ids_once:
  assumes ok: "tracker_ok t0"
  shows "distinct (cleaned_ids (run_events t0 frames))
     \<and> (\<forall>i \<in> set (cleaned_ids (run_events t0 frames)).
           i < uuid_counter (run t0 frames) \<and> i \<notin> poop_id ` set (active_poops (run t0 frames)))"
proof (induction frames rule: rev_induct)
  case Nil
  then show ?case by simp
next
  case (snoc f frames)
  obtain now ds ls where f: "f = (now, ds, ls)" by (cases f)
  let ?t = "run t0 frames"
  let ?E = "cleaned_ids (run_events t0 frames)"
  let ?C = "cleaned_ids (snd (update ?t now ds ls))"
  have okt: "tracker_ok ?t" by (rule tracker_ok_run [OF ok])
  have E: "cleaned_ids (run_events t0 (frames @ [f])) = ?E @ ?C"
    by (simp add: f run_events_snoc)
  have t': "run t0 (frames @ [f]) = fst (update ?t now ds ls)" by (simp add: f run_snoc)
  have dC: "distinct ?C" by (rule update_cleaned_ids_distinct [OF okt])
  have C: "i \<in> poop_id ` set (active_poops ?t)
       \<and> i \<notin> poop_id ` set (active_poops (fst (update ?t now ds ls)))" if "i \<in> set ?C" for i
    using cleaned_gone [OF okt that] .
  have disj: "set ?E \<inter> set ?C = {}" using snoc.IH C by blast
  have Clt: "i < uuid_counter (fst (update ?t now ds ls))" if "i \<in> set ?C" for i
  proof -
    from C [OF that] have "i < uuid_counter ?t" using okt by (auto simp: tracker_ok_def)
    with uuid_counter_mono [of ?t now ds ls] show ?thesis by simp
  qed
  have Egone: "i < uuid_counter (fst (update ?t now ds ls))
      \<and> i \<notin> poop_id ` set (active_poops (fst (update ?t now ds ls)))" if "i \<in> set ?E" for i
  proof -
    from snoc.IH that have lt: "i < uuid_counter ?t" and nl: "i \<notin> poop_id ` set (active_poops ?t)"
      by blast+
    have "i \<notin> poop_id ` set (active_poops (fst (update ?t now ds ls)))"
    proof
      assume "i \<in> poop_id ` set (active_poops (fst (update ?t now ds ls)))"
      then obtain q where "q \<in> set (active_poops (fst (update ?t now ds ls)))" "poop_id q = i"
        by auto
      with update_ids_bound [OF okt this(1)] lt nl show False by auto
    qed
    with lt uuid_counter_mono [of ?t now ds ls] show ?thesis by simp
  qed
  have d: "distinct (?E @ ?C)" using snoc.IH dC disj by simp
  have "\<forall>i \<in> set (?E @ ?C). i < uuid_counter (fst (update ?t now ds ls))
      \<and> i \<notin> poop_id ` set (active_poops (fst (update ?t now ds ls)))"
  proof
    fix i assume "i \<in> set (?E @ ?C)"
    then consider "i \<in> set ?E" | "i \<in> set ?C" by auto
    then show "i < uuid_counter (fst (update ?t now ds ls))
      \<and> i \<notin> poop_id ` set (active_poops (fst (update ?t now ds ls)))"
      using C Clt Egone by cases blast+
  qed
  with d show ?case unfolding E t' by blast
qed

lemma init_tracker_fields [simp]:
  "iou_threshold (init_tracker iou stale confirm cb) = iou"
  "stale_threshold (init_tracker iou stale confirm cb) = stale"
  "cleanup_confirm_frames (init_tracker iou stale confirm cb) = confirm"
  "event_callback (init_tracker iou stale confirm cb) = cb"
  "active_poops (init_tracker iou stale confirm cb) = []"
  by (simp_all add: init_tracker_def)

lemma cleaned_needs_streak:
  assumes t0: "\<forall>p \<in> set (active_poops t0). cleanup_candidate_frames p \<le> 0"
    and pos: "0 < cleanup_confirm_frames t0"
    and i: "i \<in> set (cleaned_ids (snd (update (run t0 frames) now ds ls)))"
  shows "nat (cleanup_confirm_frames t0) \<le> length frames + 1
     \<and> (\<forall>c \<in> set (drop (length frames + 1 - nat (cleanup_confirm_frames t0))
                     (cycles t0 (frames @ [(now, ds, ls)]))).
           streak_cycle i c)"
proof -
  let ?t = "run t0 frames"
  from update_cleaned_source [OF i] obtain k where k: "k < length (active_poops ?t)"
    and id: "poop_id (active_poops ?t ! k) = i"
    and cl: "claim_of ?t ds k = None"
    and cs: "cleans ?t (person_detections ds) (active_poops ?t ! k)"
    by blast
  let ?p = "active_poops ?t ! k"
  let ?c = "nat (cleanup_confirm_frames t0)"
  have mem: "?p \<in> set (active_poops ?t)" using k by simp
  from streak_history [OF t0, of frames] mem
  have h: "nat (cleanup_candidate_frames ?p) \<le> length frames"
    "\<forall>c \<in> set (drop (length frames - nat (cleanup_candidate_frames ?p)) (cycles t0 frames)).
        streak_cycle (poop_id ?p) c"
    by blast+
  from cs have near: "is_human_nearby ?p (person_detections ds) 100"
    and ge: "cleanup_confirm_frames t0 \<le> cleanup_candidate_frames ?p + 1"
    by (simp_all add: cleans_def)
  from ge pos have c: "?c \<le> Suc (nat (cleanup_candidate_frames ?p))" "0 < ?c" by simp_all
  have here: "streak_cycle i (?t, (now, ds, ls))" using k id cl near by auto
  have le: "length frames - nat (cleanup_candidate_frames ?p) \<le> length frames + 1 - ?c"
    using c h(1) by simp
  have "drop (length frames + 1 - ?c) (cycles t0 (frames @ [(now, ds, ls)]))
        = drop (length frames + 1 - ?c) (cycles t0 frames) @ [(?t, (now, ds, ls))]"
    using c(2) by (simp add: cycles_snoc)
  moreover have "set (drop (length frames + 1 - ?c) (cycles t0 frames))
      \<subseteq> set (drop (length frames - nat (cleanup_candidate_frames ?p)) (cycles t0 frames))"
    using le by (rule set_drop_subset_set_drop)
  ultimately have "\<forall>c \<in> set (drop (length frames + 1 - ?c) (cycles t0 (frames @ [(now, ds, ls)]))).
      streak_cycle i c"
    using h(2) here id by auto
  moreover have "?c \<le> length frames + 1" using c(1) h(1) by simp
  ultimately show ?thesis by blast
qed

lemma unmatched_step:
  assumes k: "k < length (active_poops t)" and c: "claim_of t ds k = None"
    and nc: "\<forall>p \<in> set (active_poops t). status p \<noteq> Cleaned"
    and sb: "streak_below t"
  shows "(is_human_nearby (active_poops t ! k) (person_detections ds) 100 \<longleftrightarrow>
          (\<exists>d \<in> set (person_detections ds).
             distance (location (active_poops t ! k)) (center d) < 100))
       \<and> matched_poops t now ds ! k =
           (active_poops t ! k)
             \<lparr>missing_frames := missing_frames (active_poops t ! k) + 1,
              cleanup_candidate_frames :=
                (if is_human_nearby (active_poops t ! k) (person_detections ds) 100
                 then cleanup_candidate_frames (active_poops t ! k) + 1 else 0),
              status :=
                (if is_human_nearby (active_poops t ! k) (person_detections ds) 100
                    \<and> cleanup_candidate_frames (active_poops t ! k) + 1 = cleanup_confirm_frames t
                 then Cleaned else status (active_poops t ! k))\<rparr>
       \<and> status (active_poops t ! k) \<noteq> Cleaned
       \<and> cleanup_candidate_frames (active_poops t ! k) < cleanup_confirm_frames t"
proof -
  have mem: "active_poops t ! k \<in> set (active_poops t)" using k by simp
  with sb have lt: "cleanup_candidate_frames (active_poops t ! k) < cleanup_confirm_frames t"
    by (simp add: streak_below_def)
  then have cl: "cleans t (person_detections ds) (active_poops t ! k) \<longleftrightarrow>
        is_human_nearby (active_poops t ! k) (person_detections ds) 100
        \<and> cleanup_candidate_frames (active_poops t ! k) + 1 = cleanup_confirm_frames t"
    by (auto simp: cleans_def)
  have st: "status (active_poops t ! k) \<noteq> Cleaned" using nc mem by blast
  have m: "matched_poops t now ds ! k =
           (active_poops t ! k)
             \<lparr>missing_frames := missing_frames (active_poops t ! k) + 1,
              cleanup_candidate_frames :=
                (if is_human_nearby (active_poops t ! k) (person_detections ds) 100
                 then cleanup_candidate_frames (active_poops t ! k) + 1 else 0),
              status :=
                (if is_human_nearby (active_poops t ! k) (person_detections ds) 100
                    \<and> cleanup_candidate_frames (active_poops t ! k) + 1 = cleanup_confirm_frames t
                 then Cleaned else status (active_poops t ! k))\<rparr>"
    unfolding miss_step [OF k c] cl ..
  from is_human_nearby_iff [of "active_poops t ! k" "person_detections ds" 100] m st lt
  show ?thesis by (intro conjI)
qed

text \<open>
  C1: in a tracker reached from the empty one, with a callback and a positive confirm
  count. A deposit that obtains no detection in a cycle has \<open>missing_frames\<close> incremented;
  if some person detection's center is less than 100 pixels from its location the streak
  counter is incremented, otherwise it is reset to 0; its status becomes cleaned exactly
  when a person is near and the incremented counter equals the confirm count (the counter
  of a live deposit is always below it). \<open>cleaned_count\<close> grows by the number of deposits
  so marked and the \<open>poop_cleaned\<close> calls are one per such deposit, with its id and
  location. No id is named by two \<open>poop_cleaned\<close> calls of a run. And when a cycle names
  an id, the run has at least as many cycles as the confirm count and in each of the last
  that many cycles the deposit with this id obtained no detection and had a person near.
\<close>

theorem cleanup_streak:
  assumes "0 < confirm"
  shows
   "(k < length (active_poops (run (init_tracker iou stale confirm True) frames))
       \<and> claim_of (run (init_tracker iou stale confirm True) frames) ds k = None \<longrightarrow>
       (is_human_nearby (active_poops (run (init_tracker iou stale confirm True) frames) ! k)
            (person_detections ds) 100 \<longleftrightarrow>
          (\<exists>d \<in> set (person_detections ds).
             distance (location (active_poops (run (init_tracker iou stale confirm True) frames) ! k))
               (center d) < 100))
       \<and> matched_poops (run (init_tracker iou stale confirm True) frames) now ds ! k =
           (active_poops (run (init_tracker iou stale confirm True) frames) ! k)
             \<lparr>missing_frames :=
                missing_frames (active_poops (run (init_tracker iou stale confirm True) frames) ! k) + 1,
              cleanup_candidate_frames :=
                (if is_human_nearby (active_poops (run (init_tracker iou stale confirm True) frames) ! k)
                      (person_detections ds) 100
                 then cleanup_candidate_frames
                        (active_poops (run (init_tracker iou stale confirm True) frames) ! k) + 1
                 else 0),
              status :=
                (if is_human_nearby (active_poops (run (init_tracker iou stale confirm True) frames) ! k)
                      (person_detections ds) 100
                    \<and> cleanup_candidate_frames
                        (active_poops (run (init_tracker iou stale confirm True) frames) ! k) + 1
                      = confirm
                 then Cleaned
                 else status (active_poops (run (init_tracker iou stale confirm True) frames) ! k))\<rparr>
       \<and> status (active_poops (run (init_tracker iou stale confirm True) frames) ! k) \<noteq> Cleaned
       \<and> cleanup_candidate_frames (active_poops (run (init_tracker iou stale confirm True) frames) ! k)
           < confirm)
    \<and> cleaned_count (fst (update (run (init_tracker iou stale confirm True) frames) now ds ls)) =
        cleaned_count (run (init_tracker iou stale confirm True) frames)
        + int (length (filter (\<lambda>q. status q = Cleaned)
                 (matched_poops (run (init_tracker iou stale confirm True) frames) now ds)))
    \<and> filter is_cleaned_event
          (snd (update (run (init_tracker iou stale confirm True) frames) now ds ls)) =
        map (\<lambda>q. PoopCleaned (poop_id q) (location q))
          (filter (\<lambda>q. status q = Cleaned)
             (matched_poops (run (init_tracker iou stale confirm True) frames) now ds))
    \<and> distinct (cleaned_ids (run_events (init_tracker iou stale confirm True) frames))
    \<and> (i \<in> set (cleaned_ids
                  (snd (update (run (init_tracker iou stale confirm True) frames) now ds ls))) \<longrightarrow>
         nat confirm \<le> length frames + 1
         \<and> (\<forall>c \<in> set (drop (length frames + 1 - nat confirm)
                         (cycles (init_tracker iou stale confirm True)
                            (frames @ [(now, ds, ls)]))).
               streak_cycle i c))"
proof -
  let ?init = "init_tracker iou stale confirm True"
  let ?t = "run ?init frames"
  have ok: "tracker_ok ?t" by (rule tracker_ok_run [OF tracker_ok_init])
  then have nc: "\<forall>p \<in> set (active_poops ?t). status p \<noteq> Cleaned" by (simp add: tracker_ok_def)
  have sb: "streak_below ?t"
    using assms by (intro streak_below_run streak_below_init) simp
  have cb: "event_callback ?t" by simp
  have cf: "cleanup_confirm_frames ?t = confirm" by simp
  have a: "k < length (active_poops ?t) \<and> claim_of ?t ds k = None \<longrightarrow>
       (is_human_nearby (active_poops ?t ! k) (person_detections ds) 100 \<longleftrightarrow>
          (\<exists>d \<in> set (person_detections ds).
             distance (location (active_poops ?t ! k)) (center d) < 100))
       \<and> matched_poops ?t now ds ! k =
           (active_poops ?t ! k)
             \<lparr>missing_frames := missing_frames (active_poops ?t ! k) + 1,
              cleanup_candidate_frames :=
                (if is_human_nearby (active_poops ?t ! k) (person_detections ds) 100
                 then cleanup_candidate_frames (active_poops ?t ! k) + 1 else 0),
              status :=
                (if is_human_nearby (active_poops ?t ! k) (person_detections ds) 100
                    \<and> cleanup_candidate_frames (active_poops ?t ! k) + 1 = confirm
                 then Cleaned else status (active_poops ?t ! k))\<rparr>
       \<and> status (active_poops ?t ! k) \<noteq> Cleaned
       \<and> cleanup_candidate_frames (active_poops ?t ! k) < confirm"
  proof (rule impI, erule conjE)
    assume k: "k < length (active_poops ?t)" and c: "claim_of ?t ds k = None"
    from unmatched_step [OF k c nc sb, of now] show "
       (is_human_nearby (active_poops ?t ! k) (person_detections ds) 100 \<longleftrightarrow>
          (\<exists>d \<in> set (person_detections ds).
             distance (location (active_poops ?t ! k)) (center d) < 100))
       \<and> matched_poops ?t now ds ! k =
           (active_poops ?t ! k)
             \<lparr>missing_frames := missing_frames (active_poops ?t ! k) + 1,
              cleanup_candidate_frames :=
                (if is_human_nearby (active_poops ?t ! k) (person_detections ds) 100
                 then cleanup_candidate_frames (active_poops ?t ! k) + 1 else 0),
              status :=
                (if is_human_nearby (active_poops ?t ! k) (person_detections ds) 100
                    \<and> cleanup_candidate_frames (active_poops ?t ! k) + 1 = confirm
                 then Cleaned else status (active_poops ?t ! k))\<rparr>
       \<and> status (active_poops ?t ! k) \<noteq> Cleaned
       \<and> cleanup_candidate_frames (active_poops ?t ! k) < confirm"
      unfolding cf .
  qed
  have b: "cleaned_count (fst (update ?t now ds ls)) =
        cleaned_count ?t
        + int (length (filter (\<lambda>q. status q = Cleaned) (matched_poops ?t now ds)))"
    by (rule update_cleaned_count [OF nc])
  have c: "filter is_cleaned_event (snd (update ?t now ds ls)) =
        map (\<lambda>q. PoopCleaned (poop_id q) (location q))
          (filter (\<lambda>q. status q = Cleaned) (matched_poops ?t now ds))"
    by (rule update_cleaned_events [OF nc cb])
  have d: "distinct (cleaned_ids (run_events ?init frames))"
    using run_cleaned_ids_once [OF tracker_ok_init] by blast
  have e: "i \<in> set (cleaned_ids (snd (update ?t now ds ls))) \<longrightarrow>
         nat confirm \<le> length frames + 1
         \<and> (\<forall>c \<in> set (drop (length frames + 1 - nat confirm)
                         (cycles ?init (frames @ [(now, ds, ls)]))).
               streak_cycle i c)"
    using cleaned_needs_streak [of ?init i frames now ds ls] assms by simp
  from a b c d e show ?thesis by (intro conjI)
qed

lemma near_one_eq:
  "near_one = \<lparr>iou_threshold = 3 / 10, stale_threshold = 30, cleanup_confirm_frames = 2,
      event_callback = True,
      active_poops = [\<lparr>poop_id = 0, location = (115, 115), poop_bbox = (100, 100, 130, 130),
                        first_seen = 0, last_seen = 0, status = Active, deposited_by = None,
                        missing_frames = 1, cleanup_candidate_frames = 1\<rparr>],
      cleaned_count = 0, total_deposits = 1, uuid_counter = 1\<rparr>"
  by (simp add: near_one_def eval_simps)

theorem cleanup_streak_witness:
  "(0 :: int) < 2
   \<and> 0 < length (active_poops near_one)
   \<and> claim_of near_one [create_person_detection 75 15 80 200] 0 = None
   \<and> is_human_nearby (active_poops near_one ! 0)
        (person_detections [create_person_detection 75 15 80 200]) 100
   \<and> cleanup_candidate_frames (active_poops near_one ! 0) + 1 = 2
   \<and> status (matched_poops near_one 2 [create_person_detection 75 15 80 200] ! 0) = Cleaned
   \<and> cleaned_count (fst (update near_one 2 [create_person_detection 75 15 80 200] [])) = 1
   \<and> filter is_cleaned_event (snd (update near_one 2 [create_person_detection 75 15 80 200] []))
       = [PoopCleaned 0 (115, 115)]
   \<and> streak_cycle 0 (cycles (init_tracker (3 / 10) 30 2 True)
        [(0, [create_poop_detection 115 115 30], []),
         (1, [create_person_detection 75 15 80 200], []),
         (2, [create_person_detection 75 15 80 200], [])] ! 1)
   \<and> streak_cycle 0 (cycles (init_tracker (3 / 10) 30 2 True)
        [(0, [create_poop_detection 115 115 30], []),
         (1, [create_person_detection 75 15 80 200], []),
         (2, [create_person_detection 75 15 80 200], [])] ! 2)"
proof -
  let ?person = "create_person_detection 75 15 80 200"
  let ?frames = "[(0, [create_poop_detection 115 115 30], []), (1, [?person], [])] :: frame_input list"
  let ?init = "init_tracker (3 / 10) 30 2 True"
  have pos: "(0 :: int) < 2" by simp
  have r: "run ?init ?frames = near_one" by (simp only: near_one_def)
  note th = cleanup_streak [OF pos, where k = 0 and iou = "3 / 10" and stale = 30
      and frames = ?frames and ds = "[?person]" and now = 2 and ls = "[]" and i = 0,
      unfolded r]
  have h: "0 < length (active_poops near_one)"
    "claim_of near_one [?person] 0 = None"
    by (simp_all add: near_one_eq eval_simps claim_of_def)
  have n: "is_human_nearby (active_poops near_one ! 0) (person_detections [?person]) 100"
    "cleanup_candidate_frames (active_poops near_one ! 0) + 1 = 2"
    by (simp_all add: near_one_eq eval_simps)
  from th h n have s: "status (matched_poops near_one 2 [?person] ! 0) = Cleaned"
    by simp
  have m: "matched_poops near_one 2 [?person] =
      [\<lparr>poop_id = 0, location = (115, 115), poop_bbox = (100, 100, 130, 130),
        first_seen = 0, last_seen = 0, status = Cleaned, deposited_by = None,
        missing_frames = 2, cleanup_candidate_frames = 2\<rparr>]"
    by (simp add: near_one_eq eval_simps matched_poops_def)
  from th have cc: "cleaned_count (fst (update near_one 2 [?person] [])) = 1"
    by (simp add: m) (simp add: near_one_eq)
  from th have ev: "filter is_cleaned_event (snd (update near_one 2 [?person] []))
       = [PoopCleaned 0 (115, 115)]"
    by (simp add: m)
  then have "cleaned_ids (filter is_cleaned_event (snd (update near_one 2 [?person] []))) = [0]"
    by simp
  moreover have "cleaned_ids (filter is_cleaned_event es) = cleaned_ids es" for es
    by (induction es rule: cleaned_ids.induct) simp_all
  ultimately have i: "0 \<in> set (cleaned_ids (snd (update near_one 2 [?person] [])))"
    by simp
  note e = th [THEN conjunct2, THEN conjunct2, THEN conjunct2, THEN conjunct2, THEN mp, OF i]
  from e have all: "\<forall>c \<in> set (drop (length ?frames + 1 - nat 2)
        (cycles ?init (?frames @ [(2, [?person], [])]))). streak_cycle 0 c"
    by (rule conjunct2)
  have len: "length (cycles ?init (?frames @ [(2, [?person], [])])) = 3" by simp
  have "cycles ?init (?frames @ [(2, [?person], [])]) ! 1
          \<in> set (drop (length ?frames + 1 - nat 2) (cycles ?init (?frames @ [(2, [?person], [])])))"
       "cycles ?init (?frames @ [(2, [?person], [])]) ! 2
          \<in> set (drop (length ?frames + 1 - nat 2) (cycles ?init (?frames @ [(2, [?person], [])])))"
    using len by (auto simp: in_set_conv_nth intro: exI [of _ 0] exI [of _ 1])
  with all have "streak_cycle 0 (cycles ?init (?frames @ [(2, [?person], [])]) ! 1)"
    "streak_cycle 0 (cycles ?init (?frames @ [(2, [?person], [])]) ! 2)"
    by blast+
  with pos h n s cc ev show ?thesis by simp
qed

section \<open>Properties of the event detector\<close>

lemma total_movement_sum:
  "total_movement ps =
     (\<Sum>i < length ps - 1. distance (position_center (ps ! i)) (position_center (ps ! Suc i)))"
proof (induction ps rule: total_movement.induct)
  case (1 a b rest)
  then show ?case by (simp add: sum.lessThan_Suc_shift del: sum.lessThan_Suc)
qed simp_all

lemma pooping_loop_eq:
  "pooping_loop ed tracks =
     map (\<lambda>(tid, track). get_ground_location track)
       (filter (\<lambda>(tid, track). is_pooping ed track) tracks)"
  by (induction ed tracks rule: pooping_loop.induct) simp_all

lemma is_pooping_cong:
  "stationary_threshold a = stationary_threshold b \<Longrightarrow>
   movement_threshold a = movement_threshold b \<Longrightarrow>
   aspect_ratio_threshold a = aspect_ratio_threshold b \<Longrightarrow>
   is_pooping a track = is_pooping b track"
  by (simp add: is_pooping_def)

lemma update_tracks_thresholds [simp]:
  "stationary_threshold (update_tracks ed now dds) = stationary_threshold ed"
  "movement_threshold (update_tracks ed now dds) = movement_threshold ed"
  "aspect_ratio_threshold (update_tracks ed now dds) = aspect_ratio_threshold ed"
  by (simp_all add: update_tracks_def split: prod.splits)

lemma process_events:
  "fst (process ed now detections) =
     map (\<lambda>(tid, track). get_ground_location track)
       (filter (\<lambda>(tid, track). is_pooping ed track)
          (dog_tracks (update_tracks ed now (filter (\<lambda>d. class_name d = ''dog'') detections))))"
proof -
  let ?ed1 = "update_tracks ed now (filter (\<lambda>d. class_name d = ''dog'') detections)"
  have "is_pooping ?ed1 = is_pooping ed"
    by (rule ext, rule is_pooping_cong) simp_all
  then show ?thesis by (simp add: process_def Let_def pooping_loop_eq)
qed

lemma is_pooping_iff:
  "is_pooping ed track \<longleftrightarrow>
     stationary_threshold ed \<le> get_track_duration track
     \<and> (\<exists>m. get_average_movement track = Fin m \<and> m \<le> movement_threshold ed)
     \<and> get_average_aspect_ratio track \<le> aspect_ratio_threshold ed"
  by (cases "get_average_movement track") (auto simp: is_pooping_def)

text \<open>
  C8: a track is judged to be pooping exactly when its duration is at least the stationary
  threshold, its average movement is a number (not the sentinel) that is at most the
  movement threshold, and its average aspect ratio is at most the aspect ratio threshold.
  With fewer than two samples the average movement is the sentinel \<open>float('inf')\<close> and
  the track is not pooping; with two or more it is the mean distance between consecutive
  centers and the duration is the last timestamp minus the first. The ground location is
  the bottom center of the last box. \<open>process\<close> returns, in the order of the dictionary, the
  ground location of every track that is pooping after the tracks were updated with the
  frame's dog detections. The movement threshold is the constant 5 set by the constructor.
\<close>

theorem pooping_gates:
  "(is_pooping ed track \<longleftrightarrow>
      stationary_threshold ed \<le> get_track_duration track
      \<and> (\<exists>m. get_average_movement track = Fin m \<and> m \<le> movement_threshold ed)
      \<and> get_average_aspect_ratio track \<le> aspect_ratio_threshold ed)
   \<and> (length (positions track) < 2 \<longrightarrow>
        get_average_movement track = Inf \<and> \<not> is_pooping ed track)
   \<and> (2 \<le> length (positions track) \<longrightarrow>
        get_average_movement track =
          Fin ((\<Sum>i < length (positions track) - 1.
                  distance (position_center (positions track ! i))
                    (position_center (positions track ! Suc i)))
               / real (length (positions track) - 1))
        \<and> get_track_duration track =
            position_timestamp (last (positions track)) - position_timestamp (hd (positions track)))
   \<and> (positions track \<noteq> [] \<longrightarrow>
        get_average_aspect_ratio track =
          sum_list (map position_aspect_ratio (positions track)) / real (length (positions track))
        \<and> get_ground_location track =
            ((fst (position_bbox (last (positions track)))
              + fst (snd (snd (position_bbox (last (positions track)))))) / 2,
             snd (snd (snd (position_bbox (last (positions track)))))))
   \<and> fst (process ed now detections) =
       map (\<lambda>(tid, track). get_ground_location track)
         (filter (\<lambda>(tid, track). is_pooping ed track)
            (dog_tracks (update_tracks ed now (filter (\<lambda>d. class_name d = ''dog'') detections))))
   \<and> movement_threshold (init_event_detector stationary aspect) = 5"
proof -
  have b: "get_average_movement track = Inf \<and> \<not> is_pooping ed track"
    if "length (positions track) < 2"
    using that by (simp add: get_average_movement_def is_pooping_def)
  have c: "get_average_movement track =
          Fin ((\<Sum>i < length (positions track) - 1.
                  distance (position_center (positions track ! i))
                    (position_center (positions track ! Suc i)))
               / real (length (positions track) - 1))
        \<and> get_track_duration track =
            position_timestamp (last (positions track)) - position_timestamp (hd (positions track))"
    if "2 \<le> length (positions track)"
  proof -
    from that have "real (length (positions track)) - 1 = real (length (positions track) - 1)"
      by (simp add: of_nat_diff)
    with that show ?thesis
      by (simp add: get_average_movement_def get_track_duration_def total_movement_sum)
  qed
  have d: "get_average_aspect_ratio track =
          sum_list (map position_aspect_ratio (positions track)) / real (length (positions track))
        \<and> get_ground_location track =
            ((fst (position_bbox (last (positions track)))
              + fst (snd (snd (position_bbox (last (positions track)))))) / 2,
             snd (snd (snd (position_bbox (last (positions track))))))"
    if "positions track \<noteq> []"
    using that
    by (simp add: get_average_aspect_ratio_def get_ground_location_def split: prod.splits)
  have e: "movement_threshold (init_event_detector stationary aspect) = 5"
    by (simp add: init_event_detector_def)
  from is_pooping_iff [of ed track] b c d process_events [of ed now detections] e
  show ?thesis by (intro conjI impI) blast+
qed

lemmas track_simps = create_dog_detection_def new_track_def add_position_def deque_append_def
  aspect_ratio_def width_def height_def center_def get_average_movement_def
  get_average_aspect_ratio_def get_track_duration_def get_ground_location_def
  init_event_detector_def process_def update_tracks_def is_stale_def Let_def

lemma watching_eq:
  "watching =
     \<lparr>stationary_threshold = 2, aspect_ratio_threshold = 8 / 10,
      dog_tracks = [(0, \<lparr>positions = [\<lparr>position_center = (60, 45),
                                          position_bbox = (10, 20, 110, 70),
                                          position_aspect_ratio = 1 / 2,
                                          position_timestamp = 0\<rparr>],
                         last_update = 0\<rparr>)],
      next_track_id = 1, movement_threshold = 5\<rparr>"
  by (simp add: watching_def track_simps is_pooping_def)

theorem pooping_gates_witness:
  "length (positions (new_track (create_dog_detection 10 20 100 50) 0)) < 2
   \<and> stationary_threshold (init_event_detector 0 1)
       \<le> get_track_duration (new_track (create_dog_detection 10 20 100 50) 0)
   \<and> get_average_movement (new_track (create_dog_detection 10 20 100 50) 0) = Inf
   \<and> \<not> is_pooping (init_event_detector 0 1) (new_track (create_dog_detection 10 20 100 50) 0)
   \<and> 2 \<le> length (positions (add_position (create_dog_detection 10 20 100 50) 3
                              (new_track (create_dog_detection 10 20 100 50) 0)))
   \<and> is_pooping watching (add_position (create_dog_detection 10 20 100 50) 3
                             (new_track (create_dog_detection 10 20 100 50) 0))
   \<and> get_ground_location (add_position (create_dog_detection 10 20 100 50) 3
                             (new_track (create_dog_detection 10 20 100 50) 0)) = (60, 70)
   \<and> fst (process watching 3 [create_dog_detection 10 20 100 50]) = [(60, 70)]
   \<and> fst (process watching 1 [create_dog_detection 10 20 100 50]) = []"
proof -
  let ?dog = "create_dog_detection 10 20 100 50"
  let ?one = "new_track ?dog 0"
  let ?two = "add_position ?dog 3 ?one"
  note th1 = pooping_gates [where ed = "init_event_detector 0 1" and track = ?one]
  note th2 = pooping_gates [where ed = watching and track = ?two and now = 3
      and detections = "[?dog]"]
  note th3 = pooping_gates [where ed = watching and now = 1 and detections = "[?dog]"]
  have one: "length (positions ?one) < 2" by (simp add: track_simps)
  have dur: "stationary_threshold (init_event_detector 0 1) \<le> get_track_duration ?one"
    by (simp add: track_simps)
  from th1 one have a: "get_average_movement ?one = Inf \<and> \<not> is_pooping (init_event_detector 0 1) ?one"
    by blast
  have two: "2 \<le> length (positions ?two)" "positions ?two \<noteq> []" by (simp_all add: track_simps)
  have gates: "stationary_threshold watching \<le> get_track_duration ?two
      \<and> get_average_movement ?two = Fin 0 \<and> 0 \<le> movement_threshold watching
      \<and> get_average_aspect_ratio ?two \<le> aspect_ratio_threshold watching"
    by (simp add: watching_eq track_simps)
  with th2 have b: "is_pooping watching ?two" by blast
  from th2 two have "get_ground_location ?two =
      ((fst (position_bbox (last (positions ?two)))
        + fst (snd (snd (position_bbox (last (positions ?two)))))) / 2,
       snd (snd (snd (position_bbox (last (positions ?two))))))"
    by blast
  then have c: "get_ground_location ?two = (60, 70)" by (simp add: track_simps)
  have u3: "dog_tracks (update_tracks watching 3 (filter (\<lambda>d. class_name d = ''dog'') [?dog]))
      = [(0, ?two)]"
    by (simp add: watching_eq track_simps)
  have u1: "dog_tracks (update_tracks watching 1 (filter (\<lambda>d. class_name d = ''dog'') [?dog]))
      = [(0, add_position ?dog 1 ?one)]"
    by (simp add: watching_eq track_simps)
  from th2 have "fst (process watching 3 [?dog]) =
       map (\<lambda>(tid, track). get_ground_location track)
         (filter (\<lambda>(tid, track). is_pooping watching track)
            (dog_tracks (update_tracks watching 3 (filter (\<lambda>d. class_name d = ''dog'') [?dog]))))"
    by blast
  then have d: "fst (process watching 3 [?dog]) = [(60, 70)]"
    unfolding u3 using b c by simp
  have "\<not> is_pooping watching (add_position ?dog 1 ?one)"
    by (simp add: watching_eq track_simps is_pooping_def)
  moreover from th3 have "fst (process watching 1 [?dog]) =
       map (\<lambda>(tid, track). get_ground_location track)
         (filter (\<lambda>(tid, track). is_pooping watching track)
            (dog_tracks (update_tracks watching 1 (filter (\<lambda>d. class_name d = ''dog'') [?dog]))))"
    by blast
  ultimately have e: "fst (process watching 1 [?dog]) = []"
    unfolding u1 by simp
  from one dur a two b c d e show ?thesis by simp
qed

section \<open>Properties of the alerts\<close>

lemma new_poop_alert_ids_append [simp]:
  "new_poop_alert_ids (xs @ ys) = new_poop_alert_ids xs @ new_poop_alert_ids ys"
  by (induction xs rule: new_poop_alert_ids.induct) simp_all

lemma cleanup_alert_counts_append [simp]:
  "cleanup_alert_counts (xs @ ys) = cleanup_alert_counts xs @ cleanup_alert_counts ys"
  by (induction xs rule: cleanup_alert_counts.induct) simp_all

lemma new_ids_loop_fst: "fst (new_ids_loop ids known) = map NewPoopAlert ids"
  by (induction ids arbitrary: known) (simp_all add: case_prod_beta)

lemma new_ids_loop_snd: "snd (new_ids_loop ids known) = known \<union> set ids"
  by (induction ids arbitrary: known) (simp_all add: case_prod_beta)

lemma new_poop_alert_ids_map [simp]: "new_poop_alert_ids (map NewPoopAlert ids) = ids"
  by (induction ids) simp_all

lemma cleanup_alert_counts_map [simp]: "cleanup_alert_counts (map NewPoopAlert ids) = []"
  by (induction ids) simp_all

lemma aged_loop_kinds [simp]:
  "new_poop_alert_ids (aged_loop now aged ps) = []"
  "cleanup_alert_counts (aged_loop now aged ps) = []"
  by (induction ps) (simp_all add: Let_def)

lemma state_manager_update_new_ids:
  "new_poop_alert_ids (snd (state_manager_update sm now s)) =
     (if alert_new_poop sm
      then remdups (filter (\<lambda>i. i \<notin> known_poop_ids sm) (map poop_id (state_active_poops s)))
      else [])"
  by (simp add: state_manager_update_def Let_def case_prod_beta new_ids_loop_fst)

lemma state_manager_update_known:
  "known_poop_ids (fst (state_manager_update sm now s)) =
     (if alert_new_poop sm
      then known_poop_ids sm \<union> poop_id ` set (state_active_poops s)
      else known_poop_ids sm)"
  by (auto simp: state_manager_update_def Let_def case_prod_beta new_ids_loop_snd)

lemma state_manager_update_cleanup:
  "cleanup_alert_counts (snd (state_manager_update sm now s)) =
     (if alert_cleanup sm \<and> state_cleaned_count s > prev_cleaned sm
      then [state_cleaned_count s - prev_cleaned sm]
      else [])"
  by (simp add: state_manager_update_def Let_def case_prod_beta new_ids_loop_fst prev_cleaned_def)

lemma state_manager_update_last:
  "last_state (fst (state_manager_update sm now s)) =
     Some \<lparr>summary_active_count = length (state_active_poops s),
           summary_cleaned_count = state_cleaned_count s,
           summary_total_deposits = state_total_deposits s\<rparr>"
  by (simp add: state_manager_update_def Let_def case_prod_beta)

text \<open>
  C10, as the code has it: with the new-deposit alert on, \<open>update\<close> emits one new-deposit
  alert for each id that is in the \<open>active_poops\<close> list of the snapshot and not in
  \<open>known_poop_ids\<close> (the pending list of the snapshot is not read), each id once, and adds
  exactly these ids to \<open>known_poop_ids\<close>; with it off there is no such alert and the set
  is unchanged. With the cleanup alert on and \<open>cleaned_count\<close> above the count stored by
  the previous call (0 before the first call), there is one cleanup alert and it carries
  the positive difference; otherwise there is none. The count of the snapshot is stored
  for the next call.
\<close>

theorem alert_deltas:
  "(alert_new_poop sm \<longrightarrow>
      distinct (new_poop_alert_ids (snd (state_manager_update sm now s)))
      \<and> set (new_poop_alert_ids (snd (state_manager_update sm now s)))
          = poop_id ` set (state_active_poops s) - known_poop_ids sm
      \<and> known_poop_ids (fst (state_manager_update sm now s))
          = known_poop_ids sm \<union> set (new_poop_alert_ids (snd (state_manager_update sm now s))))
   \<and> (\<not> alert_new_poop sm \<longrightarrow>
        new_poop_alert_ids (snd (state_manager_update sm now s)) = []
        \<and> known_poop_ids (fst (state_manager_update sm now s)) = known_poop_ids sm)
   \<and> (alert_cleanup sm \<and> state_cleaned_count s > prev_cleaned sm \<longrightarrow>
        cleanup_alert_counts (snd (state_manager_update sm now s))
          = [state_cleaned_count s - prev_cleaned sm]
        \<and> 0 < state_cleaned_count s - prev_cleaned sm)
   \<and> (\<not> (alert_cleanup sm \<and> state_cleaned_count s > prev_cleaned sm) \<longrightarrow>
        cleanup_alert_counts (snd (state_manager_update sm now s)) = [])
   \<and> prev_cleaned (init_state_manager new_poop cleanup aged) = 0
   \<and> prev_cleaned (fst (state_manager_update sm now s)) = state_cleaned_count s"
proof -
  have a: "distinct (new_poop_alert_ids (snd (state_manager_update sm now s)))
      \<and> set (new_poop_alert_ids (snd (state_manager_update sm now s)))
          = poop_id ` set (state_active_poops s) - known_poop_ids sm
      \<and> known_poop_ids (fst (state_manager_update sm now s))
          = known_poop_ids sm \<union> set (new_poop_alert_ids (snd (state_manager_update sm now s)))"
    if "alert_new_poop sm"
    using that by (auto simp: state_manager_update_new_ids state_manager_update_known)
  have b: "new_poop_alert_ids (snd (state_manager_update sm now s)) = []
        \<and> known_poop_ids (fst (state_manager_update sm now s)) = known_poop_ids sm"
    if "\<not> alert_new_poop sm"
    using that by (simp add: state_manager_update_new_ids state_manager_update_known)
  have c: "cleanup_alert_counts (snd (state_manager_update sm now s))
          = [state_cleaned_count s - prev_cleaned sm]
        \<and> 0 < state_cleaned_count s - prev_cleaned sm"
    if "alert_cleanup sm \<and> state_cleaned_count s > prev_cleaned sm"
    using that by (simp add: state_manager_update_cleanup)
  have d: "cleanup_alert_counts (snd (state_manager_update sm now s)) = []"
    if "\<not> (alert_cleanup sm \<and> state_cleaned_count s > prev_cleaned sm)"
    using that by (simp add: state_manager_update_cleanup)
  have e: "prev_cleaned (init_state_manager new_poop cleanup aged) = 0"
    by (simp add: prev_cleaned_def init_state_manager_def)
  have f: "prev_cleaned (fst (state_manager_update sm now s)) = state_cleaned_count s"
    by (simp add: prev_cleaned_def state_manager_update_last)
  from a b c d e f show ?thesis by blast
qed

lemma cleaned_and_new_eq:
  "cleaned_and_new =
     \<lparr>state_active_poops =
        [\<lparr>poop_id = 1, location = (300, 300), poop_bbox = (285, 285, 315, 315),
          first_seen = 2, last_seen = 2, status = Active, deposited_by = None,
          missing_frames = 0, cleanup_candidate_frames = 0\<rparr>],
      state_pending_poops = [], state_cleaned_count = 1, state_total_deposits = 2\<rparr>"
  by (simp add: cleaned_and_new_def near_one_eq eval_simps get_state_def)

lemma distinct_singleton:
  assumes "distinct xs" and "set xs = {a}"
  shows "xs = [a]"
proof (cases xs)
  case Nil
  with assms show ?thesis by simp
next
  case (Cons x rest)
  with assms have "x = a" "set rest \<subseteq> {a}" "a \<notin> set rest" by auto
  then have "rest = []" by (cases rest) auto
  with Cons \<open>x = a\<close> show ?thesis by simp
qed

theorem alert_pending_counterexample:
  "map poop_id (state_pending_poops (get_state pending_one)) = [0]
   \<and> state_active_poops (get_state pending_one) = []
   \<and> alert_new_poop (init_state_manager True True 30)
   \<and> known_poop_ids (init_state_manager True True 30) = {}
   \<and> snd (state_manager_update (init_state_manager True True 30) 0 (get_state pending_one)) = []
   \<and> known_poop_ids
        (fst (state_manager_update (init_state_manager True True 30) 0 (get_state pending_one)))
       = {}"
  by (simp add: pending_one_eq get_state_def init_state_manager_def state_manager_update_def)

theorem alert_deltas_witness:
  "alert_new_poop (init_state_manager True True 30)
   \<and> alert_cleanup (init_state_manager True True 30)
   \<and> state_cleaned_count cleaned_and_new > prev_cleaned (init_state_manager True True 30)
   \<and> new_poop_alert_ids (snd (state_manager_update (init_state_manager True True 30) 2
        cleaned_and_new)) = [1]
   \<and> known_poop_ids (fst (state_manager_update (init_state_manager True True 30) 2
        cleaned_and_new)) = {1}
   \<and> cleanup_alert_counts (snd (state_manager_update (init_state_manager True True 30) 2
        cleaned_and_new)) = [1]
   \<and> \<not> alert_new_poop (init_state_manager False False 30)
   \<and> \<not> alert_cleanup (init_state_manager False False 30)
   \<and> new_poop_alert_ids (snd (state_manager_update (init_state_manager False False 30) 2
        cleaned_and_new)) = []
   \<and> cleanup_alert_counts (snd (state_manager_update (init_state_manager False False 30) 2
        cleaned_and_new)) = []"
proof -
  let ?on = "init_state_manager True True 30"
  let ?off = "init_state_manager False False 30"
  note th1 = alert_deltas [where sm = ?on and now = 2 and s = cleaned_and_new]
  note th2 = alert_deltas [where sm = ?off and now = 2 and s = cleaned_and_new]
  have h1: "alert_new_poop ?on" "alert_cleanup ?on"
    "state_cleaned_count cleaned_and_new > prev_cleaned ?on"
    by (simp_all add: init_state_manager_def prev_cleaned_def cleaned_and_new_eq)
  have h2: "\<not> alert_new_poop ?off" "\<not> alert_cleanup ?off"
    by (simp_all add: init_state_manager_def)
  have ids: "poop_id ` set (state_active_poops cleaned_and_new) - known_poop_ids ?on = {1}"
    by (simp add: cleaned_and_new_eq init_state_manager_def)
  from th1 h1(1) ids have s: "distinct (new_poop_alert_ids (snd (state_manager_update ?on 2 cleaned_and_new)))"
    "set (new_poop_alert_ids (snd (state_manager_update ?on 2 cleaned_and_new))) = {1}"
    by simp_all
  then have a: "new_poop_alert_ids (snd (state_manager_update ?on 2 cleaned_and_new)) = [1]"
    by (rule distinct_singleton)
  from th1 h1(1) s(2) have k: "known_poop_ids (fst (state_manager_update ?on 2 cleaned_and_new)) = {1}"
    by (simp add: init_state_manager_def)
  from th1 h1 have "cleanup_alert_counts (snd (state_manager_update ?on 2 cleaned_and_new))
      = [state_cleaned_count cleaned_and_new - prev_cleaned ?on]"
    by simp
  then have c: "cleanup_alert_counts (snd (state_manager_update ?on 2 cleaned_and_new)) = [1]"
    by (simp add: cleaned_and_new_eq prev_cleaned_def init_state_manager_def)
  from th2 h2 have o: "new_poop_alert_ids (snd (state_manager_update ?off 2 cleaned_and_new)) = []"
    "cleanup_alert_counts (snd (state_manager_update ?off 2 cleaned_and_new)) = []"
    by simp_all
  from h1 h2 a k c o show ?thesis by simp
qed

end
